theory Spec2Isabelle
  imports Complex_Main
begin

section \<open>JSON values and property access\<close>

text \<open>
  The observer wraps JSON data. A value is a tree: objects are association lists in the
  enumeration order of \<^verbatim>\<open>for (key in obj)\<close>, arrays are lists. \<open>Hole\<close> stands for an
  empty slot of a sparse array (it occurs only as an element of \<open>Arr\<close>): it reads as
  \<open>Undefined\<close> and is skipped by \<^verbatim>\<open>for ... in\<close>. Values are immutable trees, so two
  places of the data never share one object; numbers are rationals (no NaN, no rounding);
  only own properties are modelled (nothing inherited from the built-in prototypes).
\<close>

datatype jsval =
    Undefined
  | Null
  | Bool bool
  | Num rat
  | Str string
  | Arr "jsval list"
  | Obj "(string \<times> jsval) list"
  | Hole

text \<open>A resolved path segment: a string key or a number (an array index).\<close>

datatype part = PKey string | PIdx int

text \<open>The path values that reach \<^verbatim>\<open>_makePathParts\<close>: a string, an integer or null.\<close>

datatype pathv = PStr string | PInt int | PNull

datatype error = TypeError | Unmodelled

text \<open>\<^verbatim>\<open>typeof(x) === 'object' && x instanceof Object\<close>\<close>

fun isObject :: "jsval \<Rightarrow> bool" where
  "isObject (Arr xs) = True"
| "isObject (Obj kvs) = True"
| "isObject v = False"

fun isArray :: "jsval \<Rightarrow> bool" where
  "isArray (Arr xs) = True"
| "isArray v = False"

text \<open>Truthiness, for \<^verbatim>\<open>data || { }\<close>.\<close>

fun truthy :: "jsval \<Rightarrow> bool" where
  "truthy Undefined = False"
| "truthy Null = False"
| "truthy (Bool b) = b"
| "truthy (Num q) = (q \<noteq> 0)"
| "truthy (Str s) = (s \<noteq> [])"
| "truthy Hole = False"
| "truthy v = True"

text \<open>Reading an array slot: an empty slot reads as \<^verbatim>\<open>undefined\<close>.\<close>

definition read :: "jsval \<Rightarrow> jsval" where
  "read v = (if v = Hole then Undefined else v)"

subsection \<open>Numbers and strings\<close>

definition digit_chars :: string where
  "digit_chars = ''0123456789''"

definition is_digit :: "char \<Rightarrow> bool" where
  "is_digit c = (c \<in> set digit_chars)"

text \<open>The value of a digit: its position among the ten digits.\<close>

definition digit_val :: "char \<Rightarrow> nat" where
  "digit_val c = length (takeWhile (\<lambda>d. d \<noteq> c) digit_chars)"

text \<open>The value of a string of decimal digits, most significant first.\<close>

fun digits_val :: "nat \<Rightarrow> string \<Rightarrow> nat" where
  "digits_val acc [] = acc"
| "digits_val acc (c # cs) = digits_val (10 * acc + digit_val c) cs"

text \<open>\<^verbatim>\<open>Number.prototype.toString\<close> on a non-negative integer.\<close>

function show_nat :: "nat \<Rightarrow> string" where
  "show_nat n = (if n < 10 then [digit_chars ! n] else show_nat (n div 10) @ [digit_chars ! (n mod 10)])"
  by pat_completeness auto
termination
  by (relation "measure id") auto

declare show_nat.simps [simp del]

definition show_int :: "int \<Rightarrow> string" where
  "show_int i = (if i < 0 then CHR ''-'' # show_nat (nat (- i)) else show_nat (nat i))"

text \<open>
  \<^verbatim>\<open>parseInt(s, 10)\<close>: leading white space, an optional sign, then the longest prefix
  of decimal digits; \<open>None\<close> is NaN. Integers are unbounded here.
\<close>

definition is_space :: "char \<Rightarrow> bool" where
  "is_space c = (c \<in> set [CHR '' '', CHR 0x09, CHR 0x0A, CHR 0x0B, CHR 0x0C, CHR 0x0D])"

definition parseInt :: "string \<Rightarrow> int option" where
  "parseInt s =
     (let t = dropWhile is_space s;
          neg = (t \<noteq> [] \<and> hd t = CHR ''-'');
          u = (if t \<noteq> [] \<and> (hd t = CHR ''-'' \<or> hd t = CHR ''+'') then tl t else t);
          ds = takeWhile is_digit u
      in if ds = [] then None
         else Some (if neg then - int (digits_val 0 ds) else int (digits_val 0 ds)))"

text \<open>
  The array index a property name denotes, if it is one: a canonical decimal string
  (no sign, no leading zero) below \<open>2^32 - 1\<close>.
\<close>

definition index_of :: "string \<Rightarrow> nat option" where
  "index_of s =
     (if s \<noteq> [] \<and> list_all is_digit s \<and> (s = ''0'' \<or> hd s \<noteq> CHR ''0'')
         \<and> int (digits_val 0 s) < 4294967295
      then Some (digits_val 0 s) else None)"

text \<open>\<^verbatim>\<open>String.prototype.split('.')\<close>\<close>

fun split_dot :: "string \<Rightarrow> string list" where
  "split_dot [] = [[]]"
| "split_dot (c # cs) =
     (if c = CHR ''.'' then [] # split_dot cs
      else (case split_dot cs of w # ws \<Rightarrow> (c # w) # ws | [] \<Rightarrow> [[c]]))"

text \<open>A segment as a property name (\<^verbatim>\<open>ToString\<close>), and as an array index.\<close>

fun part_str :: "part \<Rightarrow> string" where
  "part_str (PKey k) = k"
| "part_str (PIdx i) = show_int i"

fun part_index :: "part \<Rightarrow> nat option" where
  "part_index (PKey k) = index_of k"
| "part_index (PIdx i) = (if 0 \<le> i \<and> i < 4294967295 then Some (nat i) else None)"

text \<open>
  \<^verbatim>\<open>node[part]\<close> on a value that is neither null nor undefined (own properties only:
  the keys of an object, the elements and \<^verbatim>\<open>length\<close> of an array or a string).
\<close>

fun ownProp :: "jsval \<Rightarrow> part \<Rightarrow> jsval" where
  "ownProp (Obj kvs) p = (case map_of kvs (part_str p) of Some v \<Rightarrow> v | None \<Rightarrow> Undefined)"
| "ownProp (Arr xs) p =
     (case part_index p of
        Some n \<Rightarrow> if n < length xs then read (xs ! n) else Undefined
      | None \<Rightarrow> if part_str p = ''length'' then Num (of_nat (length xs)) else Undefined)"
| "ownProp (Str s) p =
     (case part_index p of
        Some n \<Rightarrow> if n < length s then Str [s ! n] else Undefined
      | None \<Rightarrow> if part_str p = ''length'' then Num (of_nat (length s)) else Undefined)"
| "ownProp v p = Undefined"

text \<open>\<^verbatim>\<open>node[part]\<close> in general: reading a property of null or undefined throws.\<close>

definition getProp :: "jsval \<Rightarrow> part \<Rightarrow> error + jsval" where
  "getProp node p = (if node = Null \<or> node = Undefined then Inl TypeError else Inr (ownProp node p))"

text \<open>
  The loop \<^verbatim>\<open>node = node[parts[i]]; if (node === undefined) return;\<close> of the mutators.
  \<open>None\<close> is the early return.
\<close>

fun walk :: "jsval \<Rightarrow> part list \<Rightarrow> error + jsval option" where
  "walk node [] = Inr (Some node)"
| "walk node (p # ps) =
     (case getProp node p of
        Inl e \<Rightarrow> Inl e
      | Inr n \<Rightarrow> if n = Undefined then Inr None else walk n ps)"

section \<open>The observer\<close>

text \<open>
  One call of the event emitter, \<^verbatim>\<open>this.emit(name, pathParts, value, old, to)\<close>:
  the event name and the four arguments (a missing argument is \<open>Undefined\<close>).
\<close>

datatype emitted = Emit string "part list" jsval jsval jsval

text \<open>
  A node of \<^verbatim>\<open>_eventsCache\<close>: a \<^verbatim>\<open>Map\<close> from segment to node with the two
  counters \<^verbatim>\<open>counter\<close> and \<^verbatim>\<open>end\<close>. The root map has no \<^verbatim>\<open>end\<close> property,
  which is falsy like 0.
\<close>

datatype trie = Trie (counter: nat) (tend: nat) (kids: "(part \<times> trie) list")

text \<open>
  The observer: its data, the path cache (a \<^verbatim>\<open>Map\<close> from the raw path to the
  resolved segments), the events cache, and the trace of the calls of \<^verbatim>\<open>emit\<close> made so
  far, oldest first. Subscribed callbacks are not run by the model.
\<close>

record observer =
  data :: jsval
  pathCache :: "(pathv \<times> part list) list"
  eventsCache :: trie
  emits :: "emitted list"

text \<open>\<^verbatim>\<open>constructor(data)\<close>\<close>

definition Observer :: "jsval \<Rightarrow> observer" where
  "Observer d =
     \<lparr>data = (if truthy d then d else Obj []), pathCache = [], eventsCache = Trie 0 0 [],
      emits = []\<rparr>"

subsection \<open>Path resolution\<close>

text \<open>\<^verbatim>\<open>ToString\<close> and truthiness of a path value.\<close>

fun pv_str :: "pathv \<Rightarrow> string" where
  "pv_str (PStr s) = s"
| "pv_str (PInt i) = show_int i"
| "pv_str PNull = ''null''"

fun pv_truthy :: "pathv \<Rightarrow> bool" where
  "pv_truthy (PStr s) = (s \<noteq> [])"
| "pv_truthy (PInt i) = (i \<noteq> 0)"
| "pv_truthy PNull = False"

text \<open>
  The loop of \<^verbatim>\<open>_makePathParts\<close>: under an array a segment that parses as an integer
  becomes a number; resolution stops at the first null or undefined node, and the
  segments after it stay strings.
\<close>

fun resolve :: "jsval \<Rightarrow> string list \<Rightarrow> part list" where
  "resolve node [] = []"
| "resolve node (s # ss) =
     (let part = (if isArray node
                  then (case parseInt s of Some n \<Rightarrow> PIdx n | None \<Rightarrow> PKey s)
                  else PKey s);
          node' = ownProp node part
      in if node' = Null \<or> node' = Undefined then part # map PKey ss
         else part # resolve node' ss)"

text \<open>
  \<^verbatim>\<open>_makePathParts(path)\<close>. The cache is read with the raw path; an integer path is
  turned into its string before the entry is written, so the entry is stored under
  the string.
\<close>

definition makePathParts :: "observer \<Rightarrow> pathv \<Rightarrow> part list \<times> observer" where
  "makePathParts st path =
     (case map_of (pathCache st) path of
        Some parts \<Rightarrow> (parts, st)
      | None \<Rightarrow>
          if path = PNull \<or> path = PStr []
          then ([], st\<lparr>pathCache := (path, []) # pathCache st\<rparr>)
          else (let path' = PStr (pv_str path);
                    parts = resolve (data st) (split_dot (pv_str path))
                in (parts, st\<lparr>pathCache := (path', parts) # pathCache st\<rparr>)))"

text \<open>
  The path argument of a public method as a path value. Any other value (undefined, a
  boolean, a fraction, an object) has no \<^verbatim>\<open>split\<close> method, and
  \<^verbatim>\<open>_makePathParts\<close> throws.
\<close>

fun to_pathv :: "jsval \<Rightarrow> pathv option" where
  "to_pathv (Str s) = Some (PStr s)"
| "to_pathv Null = Some PNull"
| "to_pathv (Num q) = (if q = of_int \<lfloor>q\<rfloor> then Some (PInt \<lfloor>q\<rfloor>) else None)"
| "to_pathv v = None"

subsection \<open>Dispatch through the events cache\<close>

lemma size_kid:
  "map_of ks p = Some t \<Longrightarrow> size t < Suc (size_list (size_prod (\<lambda>_. 0) size) ks)"
  by (induction ks) (auto split: if_splits)

text \<open>A segment as the start of the reconstructed event path: it stays a number.\<close>

fun part_pv :: "part \<Rightarrow> pathv" where
  "part_pv (PKey k) = PStr k"
| "part_pv (PIdx i) = PInt i"

text \<open>
  \<^verbatim>\<open>_emitWildcardDeeper(node, path, pathParts, depth, type, value, old, to)\<close>,
  as the list of the calls of \<^verbatim>\<open>emit\<close> it makes, in order.
  \<^verbatim>\<open>pathParts[pathParts.length - depth]\<close> is undefined once \<open>depth\<close> exceeds the
  length, and no map has the key undefined.
\<close>

function emitWildcardDeeper ::
  "trie \<Rightarrow> pathv \<Rightarrow> part list \<Rightarrow> nat \<Rightarrow> string \<Rightarrow> jsval \<Rightarrow> jsval \<Rightarrow> jsval \<Rightarrow> emitted list"
where
  "emitWildcardDeeper (Trie c e ks) path pathParts depth type v old to =
     (if e \<noteq> 0 \<and> int depth - 1 = int (length pathParts)
      then [Emit (pv_str path @ '':'' @ type) pathParts v old to] else [])
     @ (if depth \<le> length pathParts
        then (let part = pathParts ! (length pathParts - depth)
              in case map_of ks part of
                   Some child \<Rightarrow>
                     emitWildcardDeeper child
                       (if pv_truthy path then PStr (part_str part @ ''.'' @ pv_str path)
                        else part_pv part)
                       pathParts (depth + 1) type v old to
                 | None \<Rightarrow> [])
        else [])
     @ (case map_of ks (PKey ''*'') of
          Some child \<Rightarrow>
            emitWildcardDeeper child
              (if pv_truthy path then PStr (''*.'' @ pv_str path) else PStr ''*'')
              pathParts (depth + 1) type v old to
        | None \<Rightarrow> [])"
  by pat_completeness auto
termination
  by (relation "measure (\<lambda>(t, _). size t)") (auto dest: size_kid)

text \<open>\<^verbatim>\<open>_emitWildcard(path, type, value, old, to)\<close>\<close>

definition emitWildcard ::
  "observer \<Rightarrow> pathv \<Rightarrow> string \<Rightarrow> jsval \<Rightarrow> jsval \<Rightarrow> jsval \<Rightarrow> observer"
where
  "emitWildcard st path type v old to =
     (let (pathParts, st1) = makePathParts st path
      in st1\<lparr>emits := emits st1
                @ emitWildcardDeeper (eventsCache st1) (PStr []) pathParts 1 type v old to
                @ [Emit type pathParts v old to]\<rparr>)"

subsection \<open>The diff engine\<close>

text \<open>\<^verbatim>\<open>path + (path ? '.' : '') + key\<close>\<close>

definition child_path :: "pathv \<Rightarrow> string \<Rightarrow> pathv" where
  "child_path path key = PStr (pv_str path @ (if pv_truthy path then ''.'' else []) @ key)"

text \<open>\<^verbatim>\<open>otherIsObject ? other[key] : undefined\<close>\<close>

definition other_at :: "jsval \<Rightarrow> string \<Rightarrow> jsval" where
  "other_at other key = (if isObject other then ownProp other (PKey key) else Undefined)"

text \<open>The last statement of \<^verbatim>\<open>_checkSet\<close>.\<close>

definition checkSet_emit :: "observer \<Rightarrow> pathv \<Rightarrow> jsval \<Rightarrow> jsval \<Rightarrow> observer" where
  "checkSet_emit st path d old =
     (if d \<noteq> old \<and> ((isObject d \<and> \<not> isObject old) \<or> (\<not> isObject d \<and> isObject old)
                     \<or> (\<not> isObject d \<and> \<not> isObject old))
      then emitWildcard st path ''set'' d old Undefined else st)"

text \<open>
  \<^verbatim>\<open>_checkSet(path, data, old)\<close>. The loop \<^verbatim>\<open>for (key in data)\<close> runs over the
  entries of an object, or over the indices of an array (skipping empty slots).
\<close>

fun checkSet :: "observer \<Rightarrow> pathv \<Rightarrow> jsval \<Rightarrow> jsval \<Rightarrow> observer"
  and checkSet_keys :: "observer \<Rightarrow> pathv \<Rightarrow> (string \<times> jsval) list \<Rightarrow> jsval \<Rightarrow> observer"
  and checkSet_items :: "observer \<Rightarrow> pathv \<Rightarrow> nat \<Rightarrow> jsval list \<Rightarrow> jsval \<Rightarrow> observer"
where
  "checkSet st path (Obj kvs) old = checkSet_emit (checkSet_keys st path kvs old) path (Obj kvs) old"
| "checkSet st path (Arr xs) old = checkSet_emit (checkSet_items st path 0 xs old) path (Arr xs) old"
| "checkSet st path d old = checkSet_emit st path d old"
| "checkSet_keys st path [] old = st"
| "checkSet_keys st path ((k, v) # kvs) old =
     checkSet_keys (checkSet st (child_path path k) v (other_at old k)) path kvs old"
| "checkSet_items st path i [] old = st"
| "checkSet_items st path i (x # xs) old =
     checkSet_items
       (if x = Hole then st
        else checkSet st (child_path path (show_nat i)) x (other_at old (show_nat i)))
       path (Suc i) xs old"

text \<open>The last statement of \<^verbatim>\<open>_checkUnset\<close>.\<close>

definition checkUnset_emit :: "observer \<Rightarrow> pathv \<Rightarrow> jsval \<Rightarrow> jsval \<Rightarrow> observer" where
  "checkUnset_emit st path old d =
     (if d = Undefined then emitWildcard st path ''unset'' old Undefined Undefined else st)"

text \<open>\<^verbatim>\<open>_checkUnset(path, old, data)\<close>\<close>

fun checkUnset :: "observer \<Rightarrow> pathv \<Rightarrow> jsval \<Rightarrow> jsval \<Rightarrow> observer"
  and checkUnset_keys :: "observer \<Rightarrow> pathv \<Rightarrow> (string \<times> jsval) list \<Rightarrow> jsval \<Rightarrow> observer"
  and checkUnset_items :: "observer \<Rightarrow> pathv \<Rightarrow> nat \<Rightarrow> jsval list \<Rightarrow> jsval \<Rightarrow> observer"
where
  "checkUnset st path (Obj kvs) d = checkUnset_emit (checkUnset_keys st path kvs d) path (Obj kvs) d"
| "checkUnset st path (Arr xs) d = checkUnset_emit (checkUnset_items st path 0 xs d) path (Arr xs) d"
| "checkUnset st path old d = checkUnset_emit st path old d"
| "checkUnset_keys st path [] d = st"
| "checkUnset_keys st path ((k, v) # kvs) d =
     checkUnset_keys (checkUnset st (child_path path k) v (other_at d k)) path kvs d"
| "checkUnset_items st path i [] d = st"
| "checkUnset_items st path i (x # xs) d =
     checkUnset_items
       (if x = Hole then st
        else checkUnset st (child_path path (show_nat i)) x (other_at d (show_nat i)))
       path (Suc i) xs d"


subsection \<open>Writing into the data\<close>

text \<open>
  \<^verbatim>\<open>obj[key] = v\<close> on an object: an existing key keeps its place; a new key that is an
  array index goes among the index keys in ascending order, any other new key goes last.
\<close>

fun obj_insert_index :: "nat \<Rightarrow> string \<Rightarrow> jsval \<Rightarrow> (string \<times> jsval) list \<Rightarrow> (string \<times> jsval) list" where
  "obj_insert_index n k v [] = [(k, v)]"
| "obj_insert_index n k v ((k', v') # kvs) =
     (case index_of k' of
        Some m \<Rightarrow> if m < n then (k', v') # obj_insert_index n k v kvs else (k, v) # (k', v') # kvs
      | None \<Rightarrow> (k, v) # (k', v') # kvs)"

fun obj_update :: "string \<Rightarrow> jsval \<Rightarrow> (string \<times> jsval) list \<Rightarrow> (string \<times> jsval) list" where
  "obj_update k v [] = []"
| "obj_update k v ((k', v') # kvs) = (if k' = k then (k, v) # kvs else (k', v') # obj_update k v kvs)"

definition obj_set :: "string \<Rightarrow> jsval \<Rightarrow> (string \<times> jsval) list \<Rightarrow> (string \<times> jsval) list" where
  "obj_set k v kvs =
     (if map_of kvs k \<noteq> None then obj_update k v kvs
      else case index_of k of Some n \<Rightarrow> obj_insert_index n k v kvs | None \<Rightarrow> kvs @ [(k, v)])"

text \<open>
  The data after the node reached from the root by \<open>parts\<close> has been replaced or mutated
  into \<open>new\<close>: the in-place mutation of the source, on a tree without sharing.
\<close>

fun put_at :: "part list \<Rightarrow> jsval \<Rightarrow> jsval \<Rightarrow> jsval" where
  "put_at [] new tree = new"
| "put_at (p # ps) new (Obj kvs) =
     (case map_of kvs (part_str p) of
        Some v \<Rightarrow> Obj (obj_update (part_str p) (put_at ps new v) kvs)
      | None \<Rightarrow> Obj kvs)"
| "put_at (p # ps) new (Arr xs) =
     (case part_index p of
        Some n \<Rightarrow> if n < length xs then Arr (xs[n := put_at ps new (xs ! n)]) else Arr xs
      | None \<Rightarrow> Arr xs)"
| "put_at (p # ps) new v = v"

text \<open>\<^verbatim>\<open>node[i]\<close> on an array, for a number \<open>i\<close>.\<close>

definition arr_get :: "jsval list \<Rightarrow> int \<Rightarrow> jsval" where
  "arr_get xs i = (if 0 \<le> i \<and> i < int (length xs) then read (xs ! nat i) else Undefined)"

text \<open>
  \<^verbatim>\<open>Array.prototype.splice\<close>: a negative start counts from the end, and the start is
  clamped to the array.
\<close>

definition splice_start :: "jsval list \<Rightarrow> int \<Rightarrow> nat" where
  "splice_start xs start =
     (if start < 0 then nat (max (int (length xs) + start) 0) else min (nat start) (length xs))"

text \<open>\<^verbatim>\<open>node.splice(start, 1)\<close> and \<^verbatim>\<open>node.splice(start, 0, item)\<close>\<close>

definition splice_delete :: "jsval list \<Rightarrow> int \<Rightarrow> jsval list" where
  "splice_delete xs start = (let k = splice_start xs start in take k xs @ drop (Suc k) xs)"

definition splice_insert :: "jsval list \<Rightarrow> int \<Rightarrow> jsval \<Rightarrow> jsval list" where
  "splice_insert xs start item = (let k = splice_start xs start in take k xs @ item # drop k xs)"

text \<open>One call after another: a thrown exception ends the sequence.\<close>

fun and_then :: "error + 'a \<Rightarrow> ('a \<Rightarrow> error + 'b) \<Rightarrow> error + 'b" where
  "and_then (Inl e) f = Inl e"
| "and_then (Inr x) f = f x"

subsection \<open>The array operations\<close>

text \<open>
  The common prologue of \<^verbatim>\<open>insert\<close>, \<^verbatim>\<open>move\<close> and \<^verbatim>\<open>remove\<close>: a path other
  than the empty string and null is resolved (an integer as its string) and walked from the
  root. The result is the path, the segments (\<open>None\<close> where the source leaves
  \<^verbatim>\<open>parts\<close> undefined), the node (\<open>None\<close> for the early return of the walk) and
  the observer.
\<close>

definition locate ::
  "observer \<Rightarrow> jsval \<Rightarrow> error + (pathv \<times> part list option \<times> jsval option \<times> observer)" where
  "locate st path0 =
     (if path0 \<noteq> Str [] \<and> path0 \<noteq> Null
      then (case to_pathv path0 of
              None \<Rightarrow> Inl TypeError
            | Some pv \<Rightarrow>
                (let path = PStr (pv_str pv);
                     (parts, st1) = makePathParts st path
                 in case walk (data st1) parts of
                      Inl e \<Rightarrow> Inl e
                    | Inr node \<Rightarrow> Inr (path, Some parts, node, st1)))
      else Inr ((if path0 = Null then PNull else PStr []), None, Some (data st), st))"

text \<open>The segments leading to the located node.\<close>

fun parts_of :: "part list option \<Rightarrow> part list" where
  "parts_of None = []"
| "parts_of (Some ps) = ps"

text \<open>
  \<^verbatim>\<open>while(i-- > movedSince) this._emitWildcard(path, 'move', node[i], i - 1, i);\<close>
\<close>

function insert_moves :: "observer \<Rightarrow> pathv \<Rightarrow> jsval list \<Rightarrow> int \<Rightarrow> int \<Rightarrow> observer" where
  "insert_moves st path xs i movedSince =
     (if i > movedSince
      then (let i' = i - 1
            in insert_moves
                 (emitWildcard st path ''move'' (arr_get xs i') (Num (of_int (i' - 1))) (Num (of_int i')))
                 path xs i' movedSince)
      else st)"
  by pat_completeness auto
termination
  by (relation "measure (\<lambda>(st, path, xs, i, m). nat (i - m))") auto

declare insert_moves.simps [simp del]

text \<open>\<^verbatim>\<open>insert(path, data, index = -1)\<close>\<close>

definition insert_op :: "observer \<Rightarrow> jsval \<Rightarrow> jsval \<Rightarrow> int \<Rightarrow> error + observer" where
  "insert_op st path0 d index0 =
     (case locate st path0 of
        Inl e \<Rightarrow> Inl e
      | Inr (path, parts, node, st1) \<Rightarrow>
          (case node of
             Some (Arr xs) \<Rightarrow>
               (let n = int (length xs);
                    index = (if index0 < -1
                             then (if index0 < - n then 0 else n + index0 + 1)
                             else index0);
                    (xs', movedSince, index') =
                       (if index = 0 then (d # xs, Some 1, 0)
                        else if index = -1 \<or> index \<ge> n then (xs @ [d], None, n)
                        else (splice_insert xs index d, Some (index + 1), index));
                    st2 = st1\<lparr>data := put_at (parts_of parts) (Arr xs') (data st1)\<rparr>;
                    st3 = (case movedSince of
                             Some m \<Rightarrow> insert_moves st2 path xs' (int (length xs')) m
                           | None \<Rightarrow> st2);
                    st4 = emitWildcard st3 path ''insert'' d (Num (of_int index')) Undefined
                in Inr (checkSet st4
                          (PStr ((if parts \<noteq> None then pv_str path @ ''.'' else []) @ show_int index'))
                          d Undefined))
           | _ \<Rightarrow> Inr st1))"

text \<open>The index normalisation of \<^verbatim>\<open>move\<close> (for both indices) and \<^verbatim>\<open>remove\<close>.\<close>

definition norm_index :: "int \<Rightarrow> int \<Rightarrow> int" where
  "norm_index n i = (if i < 0 then (if i < - n then 0 else n + i) else if i \<ge> n then n - 1 else i)"

text \<open>
  \<^verbatim>\<open>while(i-- > movedSince) this._emitWildcard(path, 'move', node[i + movedDirection], i, i + movedDirection);\<close>
\<close>

function move_moves :: "observer \<Rightarrow> pathv \<Rightarrow> jsval list \<Rightarrow> int \<Rightarrow> int \<Rightarrow> int \<Rightarrow> observer" where
  "move_moves st path xs i movedSince dir =
     (if i > movedSince
      then (let i' = i - 1
            in move_moves
                 (emitWildcard st path ''move'' (arr_get xs (i' + dir)) (Num (of_int i')) (Num (of_int (i' + dir))))
                 path xs i' movedSince dir)
      else st)"
  by pat_completeness auto
termination
  by (relation "measure (\<lambda>(st, path, xs, i, m, dir). nat (i - m))") auto

declare move_moves.simps [simp del]

text \<open>\<^verbatim>\<open>move(path, from, to)\<close>\<close>

definition move :: "observer \<Rightarrow> jsval \<Rightarrow> int \<Rightarrow> int \<Rightarrow> error + observer" where
  "move st path0 from0 to0 =
     (case locate st path0 of
        Inl e \<Rightarrow> Inl e
      | Inr (path, parts, node, st1) \<Rightarrow>
          (case node of
             Some (Arr xs) \<Rightarrow>
               (let n = int (length xs);
                    from1 = norm_index n from0;
                    to1 = norm_index n to0
                in if from1 = to1 then Inr st1
                   else (let d = arr_get xs from1;
                             xs' = splice_insert (splice_delete xs from1) to1 d;
                             (movedSince, movedTill, dir) =
                                (if to1 > from1 then (from1 + 1, to1 + 1, -1) else (to1, from1, 1));
                             st2 = st1\<lparr>data := put_at (parts_of parts) (Arr xs') (data st1)\<rparr>;
                             st3 = move_moves st2 path xs' movedTill movedSince dir
                         in Inr (emitWildcard st3 path ''move'' d (Num (of_int from1)) (Num (of_int to1)))))
           | _ \<Rightarrow> Inr st1))"


text \<open>
  \<^verbatim>\<open>while(i-- > index) this._emitWildcard(path, 'move', node[i], i + 1, i);\<close>
\<close>

function remove_moves :: "observer \<Rightarrow> pathv \<Rightarrow> jsval list \<Rightarrow> int \<Rightarrow> int \<Rightarrow> observer" where
  "remove_moves st path xs i index =
     (if i > index
      then (let i' = i - 1
            in remove_moves
                 (emitWildcard st path ''move'' (arr_get xs i') (Num (of_int (i' + 1))) (Num (of_int i')))
                 path xs i' index)
      else st)"
  by pat_completeness auto
termination
  by (relation "measure (\<lambda>(st, path, xs, i, m). nat (i - m))") auto

declare remove_moves.simps [simp del]

text \<open>\<^verbatim>\<open>remove(path, index = -1)\<close>\<close>

definition remove_op :: "observer \<Rightarrow> jsval \<Rightarrow> int \<Rightarrow> error + observer" where
  "remove_op st path0 index0 =
     (case locate st path0 of
        Inl e \<Rightarrow> Inl e
      | Inr (path, parts, node, st1) \<Rightarrow>
          (case node of
             Some (Arr xs) \<Rightarrow>
               if xs = [] then Inr st1
               else (let index = norm_index (int (length xs)) index0;
                         d = arr_get xs index;
                         st2 = checkUnset st1
                                 (PStr ((if pv_truthy path then pv_str path @ ''.'' else []) @ show_int index))
                                 d Undefined;
                         xs' = splice_delete xs index;
                         st3 = st2\<lparr>data := put_at (parts_of parts) (Arr xs') (data st2)\<rparr>;
                         st4 = (if index < int (length xs')
                                then remove_moves st3 path xs' (int (length xs')) index else st3)
                     in Inr (emitWildcard st4 path ''remove'' d (Num (of_int index)) Undefined))
           | _ \<Rightarrow> Inr st1))"

subsection \<open>set, unset, patch, get, clear\<close>

text \<open>
  \<^verbatim>\<open>parts[parts.length - 1]\<close>: on an empty array it is undefined, which as a
  property name is the string \<open>undefined\<close>.
\<close>

definition last_key :: "part list \<Rightarrow> part" where
  "last_key parts = (if parts = [] then PKey ''undefined'' else last parts)"

text \<open>\<^verbatim>\<open>parts.slice(0, -1).join('.')\<close>\<close>

fun join_dot :: "string list \<Rightarrow> string" where
  "join_dot [] = []"
| "join_dot [s] = s"
| "join_dot (s # t # ss) = s @ ''.'' @ join_dot (t # ss)"

definition arrayPath :: "part list \<Rightarrow> pathv" where
  "arrayPath parts = PStr (join_dot (map part_str (butlast parts)))"

text \<open>
  \<^verbatim>\<open>node[key] = v\<close> on an object or an array. Writing past the end of an array
  leaves empty slots in between. Writing a property of an array that is not an index
  (a named property, or \<^verbatim>\<open>length\<close>) is outside the model: \<open>None\<close>.
\<close>

fun assign :: "jsval \<Rightarrow> part \<Rightarrow> jsval \<Rightarrow> jsval option" where
  "assign (Obj kvs) key v = Some (Obj (obj_set (part_str key) v kvs))"
| "assign (Arr xs) key v =
     (case part_index key of
        Some n \<Rightarrow> Some (Arr (if n < length xs then xs[n := v]
                               else xs @ replicate (n - length xs) Hole @ [v]))
      | None \<Rightarrow> None)"
| "assign node key v = None"

text \<open>\<^verbatim>\<open>while(i++ < node.length) this._emitWildcard(arrayPath, 'insert', node[i - 1], i - 1);\<close>\<close>

function set_inserts :: "observer \<Rightarrow> pathv \<Rightarrow> jsval list \<Rightarrow> int \<Rightarrow> observer" where
  "set_inserts st path xs i =
     (if i < int (length xs)
      then (let i' = i + 1
            in set_inserts
                 (emitWildcard st path ''insert'' (arr_get xs (i' - 1)) (Num (of_int (i' - 1))) Undefined)
                 path xs i')
      else st)"
  by pat_completeness auto
termination
  by (relation "measure (\<lambda>(st, path, xs, i). nat (int (length xs) - i))") auto

declare set_inserts.simps [simp del]

text \<open>
  The first lines of \<^verbatim>\<open>set\<close> and \<^verbatim>\<open>patch\<close>: with the data undefined, the path
  is taken as the data and the path is the empty string.
\<close>

definition shift_args :: "jsval \<Rightarrow> jsval \<Rightarrow> jsval \<times> jsval" where
  "shift_args path d = (if d = Undefined then (Str [], path) else (path, d))"

text \<open>\<^verbatim>\<open>set(path, data)\<close>\<close>

definition set_op :: "observer \<Rightarrow> jsval \<Rightarrow> jsval \<Rightarrow> error + observer" where
  "set_op st path0 data0 =
     (let (path, d) = shift_args path0 data0
      in if path = Str [] \<and> \<not> isObject d then Inr st
         else (case to_pathv path of
                 None \<Rightarrow> Inl TypeError
               | Some pv \<Rightarrow>
                   (let (parts, st1) = makePathParts st pv
                    in case walk (data st1) (butlast parts) of
                         Inl e \<Rightarrow> Inl e
                       | Inr None \<Rightarrow> Inr st1
                       | Inr (Some node) \<Rightarrow>
                           if \<not> isObject node then Inr st1
                           else if path = Str []
                           then (let old = data st1;
                                     st2 = st1\<lparr>data := d\<rparr>
                                 in Inr (checkSet (checkUnset st2 pv old d) pv d old))
                           else (let old = ownProp node (last_key parts)
                                 in case assign node (last_key parts) d of
                                      None \<Rightarrow> Inl Unmodelled
                                    | Some node' \<Rightarrow>
                                        (let st2 = st1\<lparr>data := put_at (butlast parts) node' (data st1)\<rparr>;
                                             st3 = checkSet (checkUnset st2 pv old d) pv d old
                                         in case (node, node') of
                                              (Arr xs, Arr xs') \<Rightarrow>
                                                Inr (set_inserts st3 (arrayPath parts) xs' (int (length xs)))
                                            | _ \<Rightarrow> Inr st3)))))"

text \<open>\<^verbatim>\<open>delete node[key]\<close> on an object.\<close>

fun obj_delete :: "string \<Rightarrow> (string \<times> jsval) list \<Rightarrow> (string \<times> jsval) list" where
  "obj_delete k [] = []"
| "obj_delete k ((k', v) # kvs) = (if k' = k then kvs else (k', v) # obj_delete k kvs)"

text \<open>A segment as the \<^verbatim>\<open>index\<close> argument of an event: a number or a string.\<close>

fun part_val :: "part \<Rightarrow> jsval" where
  "part_val (PKey k) = Str k"
| "part_val (PIdx i) = Num (of_int i)"

text \<open>
  \<^verbatim>\<open>unset(path = '')\<close>. The parameter defaults to the empty string, so the branch
  \<^verbatim>\<open>if (path === undefined)\<close> is never taken, and the empty path goes the general
  way: \<open>parts\<close> is empty and the property read is \<^verbatim>\<open>node['undefined']\<close>. Under an
  array, \<^verbatim>\<open>splice\<close> and the comparisons take a segment that is an index written as a
  string as that number; the property \<^verbatim>\<open>length\<close> as a segment is outside the model.
  \<^verbatim>\<open>delete\<close> on a string's character or length throws (the class body is strict).
\<close>

definition unset :: "observer \<Rightarrow> jsval \<Rightarrow> error + observer" where
  "unset st path0 =
     (case to_pathv (if path0 = Undefined then Str [] else path0) of
        None \<Rightarrow> Inl TypeError
      | Some pv \<Rightarrow>
          (let (parts, st1) = makePathParts st pv
           in case walk (data st1) (butlast parts) of
                Inl e \<Rightarrow> Inl e
              | Inr None \<Rightarrow> Inr st1
              | Inr (Some node) \<Rightarrow>
                  (case getProp node (last_key parts) of
                     Inl e \<Rightarrow> Inl e
                   | Inr old \<Rightarrow>
                       if old = Undefined then Inr st1
                       else (let st2 = checkUnset st1 pv old Undefined
                             in case node of
                                  Arr xs \<Rightarrow>
                                    if xs = [] then Inr st2
                                    else (case part_index (last_key parts) of
                                            None \<Rightarrow> Inl Unmodelled
                                          | Some n \<Rightarrow>
                                              (let d = arr_get xs (int n);
                                                   xs' = splice_delete xs (int n);
                                                   st3 = st2\<lparr>data := put_at (butlast parts) (Arr xs') (data st2)\<rparr>;
                                                   st4 = (if int n < int (length xs')
                                                          then remove_moves st3 (arrayPath parts) xs'
                                                                 (int (length xs')) (int n)
                                                          else st3)
                                               in Inr (emitWildcard st4 (arrayPath parts) ''remove'' d
                                                         (part_val (last_key parts)) Undefined)))
                                | Obj kvs \<Rightarrow>
                                    Inr (st2\<lparr>data := put_at (butlast parts)
                                                        (Obj (obj_delete (part_str (last_key parts)) kvs))
                                                        (data st2)\<rparr>)
                                | _ \<Rightarrow> Inl TypeError))))"

text \<open>The node reached from the root by segments that name own properties.\<close>

fun get_at :: "part list \<Rightarrow> jsval \<Rightarrow> jsval" where
  "get_at [] tree = tree"
| "get_at (p # ps) tree = get_at ps (ownProp tree p)"

text \<open>\<^verbatim>\<open>node.hasOwnProperty(key)\<close> on an object or an array.\<close>

fun hasOwn :: "jsval \<Rightarrow> string \<Rightarrow> bool" where
  "hasOwn (Obj kvs) k = (map_of kvs k \<noteq> None)"
| "hasOwn (Arr xs) k =
     (case index_of k of Some n \<Rightarrow> n < length xs \<and> xs ! n \<noteq> Hole | None \<Rightarrow> k = ''length'')"
| "hasOwn v k = False"

text \<open>The keys and values that \<^verbatim>\<open>for (key in data)\<close> visits.\<close>

fun entries :: "jsval \<Rightarrow> (string \<times> jsval) list" where
  "entries (Obj kvs) = kvs"
| "entries (Arr xs) = filter (\<lambda>kv. snd kv \<noteq> Hole) (zip (map show_nat [0..<length xs]) xs)"
| "entries v = []"

text \<open>
  The second loop of \<^verbatim>\<open>_patchNode\<close> (add new data), over the entries of the patch.
  \<open>loc\<close> is where the patched node lives in the data; the node is read there, since the
  loop mutates it. \<^verbatim>\<open>parseInt(key, 10)\<close> is a number whenever the write into an array
  is inside the model.
\<close>

fun patchNode_new :: "observer \<Rightarrow> part list \<Rightarrow> pathv \<Rightarrow> (string \<times> jsval) list \<Rightarrow> error + observer" where
  "patchNode_new st loc path [] = Inr st"
| "patchNode_new st loc path ((k, v) # kvs) =
     (let node = get_at loc (data st)
      in if hasOwn node k then patchNode_new st loc path kvs
         else (case assign node (PKey k) v of
                 None \<Rightarrow> Inl Unmodelled
               | Some node' \<Rightarrow>
                   (let st1 = st\<lparr>data := put_at loc node' (data st)\<rparr>;
                        st2 = checkSet st1 (child_path path k) v Undefined;
                        st3 = (if isArray node'
                               then emitWildcard st2 path ''insert'' (ownProp node' (PKey k))
                                      (case parseInt k of Some i \<Rightarrow> Num (of_int i) | None \<Rightarrow> Undefined)
                                      Undefined
                               else st2)
                    in patchNode_new st3 loc path kvs)))"

text \<open>
  \<^verbatim>\<open>_patchNode(path, node, data)\<close>, for a node that is an object or an array (its
  callers check it). The first loop (update existing data) runs over the keys the node had
  when the loop started; an existing key is written in place.
\<close>

fun patchNode :: "observer \<Rightarrow> part list \<Rightarrow> pathv \<Rightarrow> jsval \<Rightarrow> jsval \<Rightarrow> error + observer"
  and patchNode_keys :: "observer \<Rightarrow> part list \<Rightarrow> pathv \<Rightarrow> (string \<times> jsval) list \<Rightarrow> jsval \<Rightarrow> error + observer"
  and patchNode_items :: "observer \<Rightarrow> part list \<Rightarrow> pathv \<Rightarrow> nat \<Rightarrow> jsval list \<Rightarrow> jsval \<Rightarrow> error + observer"
where
  "patchNode st loc path (Obj kvs) d =
     (case patchNode_keys st loc path kvs d of
        Inl e \<Rightarrow> Inl e
      | Inr st' \<Rightarrow> patchNode_new st' loc path (entries d))"
| "patchNode st loc path (Arr xs) d =
     (case patchNode_items st loc path 0 xs d of
        Inl e \<Rightarrow> Inl e
      | Inr st' \<Rightarrow> patchNode_new st' loc path (entries d))"
| "patchNode st loc path node d = Inl Unmodelled"
| "patchNode_keys st loc path [] d = Inr st"
| "patchNode_keys st loc path ((k, current) # kvs) d =
     (let dk = ownProp d (PKey k);
          pathDeeper = child_path path k
      in if dk = Undefined then patchNode_keys st loc path kvs d
         else (case (if isObject current
                     then (if isObject dk then patchNode st (loc @ [PKey k]) pathDeeper current dk
                           else (let st1 = st\<lparr>data := put_at (loc @ [PKey k]) dk (data st)\<rparr>
                                 in Inr (emitWildcard (checkUnset st1 pathDeeper current dk)
                                           pathDeeper ''set'' dk current Undefined)))
                     else (let st1 = st\<lparr>data := put_at (loc @ [PKey k]) dk (data st)\<rparr>
                           in Inr (checkSet st1 pathDeeper dk current)))
               of Inl e \<Rightarrow> Inl e
                | Inr st' \<Rightarrow> patchNode_keys st' loc path kvs d))"
| "patchNode_items st loc path i [] d = Inr st"
| "patchNode_items st loc path i (current # xs) d =
     (let k = show_nat i;
          dk = ownProp d (PKey k);
          pathDeeper = child_path path k
      in if current = Hole \<or> dk = Undefined then patchNode_items st loc path (Suc i) xs d
         else (case (if isObject current
                     then (if isObject dk then patchNode st (loc @ [PKey k]) pathDeeper current dk
                           else (let st1 = st\<lparr>data := put_at (loc @ [PKey k]) dk (data st)\<rparr>
                                 in Inr (emitWildcard (checkUnset st1 pathDeeper current dk)
                                           pathDeeper ''set'' dk current Undefined)))
                     else (let st1 = st\<lparr>data := put_at (loc @ [PKey k]) dk (data st)\<rparr>
                           in Inr (checkSet st1 pathDeeper dk current)))
               of Inl e \<Rightarrow> Inl e
                | Inr st' \<Rightarrow> patchNode_items st' loc path (Suc i) xs d))"

text \<open>\<^verbatim>\<open>patch(path, data)\<close>\<close>

definition patch :: "observer \<Rightarrow> jsval \<Rightarrow> jsval \<Rightarrow> error + observer" where
  "patch st path0 data0 =
     (let (path, d) = shift_args path0 data0
      in if path = Str [] \<and> \<not> isObject d then Inr st
         else (case to_pathv path of
                 None \<Rightarrow> Inl TypeError
               | Some pv \<Rightarrow>
                   (let (parts, st1) = makePathParts st pv
                    in case walk (data st1) (butlast parts) of
                         Inl e \<Rightarrow> Inl e
                       | Inr None \<Rightarrow> Inr st1
                       | Inr (Some node) \<Rightarrow>
                           if \<not> isObject node then Inr st1
                           else (let key = last_key parts;
                                     current = (if path = Str [] then data st1 else ownProp node key);
                                     loc = (if path = Str [] then [] else butlast parts @ [key]);
                                     assigned =
                                       (case assign node key d of
                                          None \<Rightarrow> Inl Unmodelled
                                        | Some node' \<Rightarrow>
                                            Inr (st1\<lparr>data := put_at (butlast parts) node' (data st1)\<rparr>))
                                 in if isObject current
                                    then (if isObject d then patchNode st1 loc pv current d
                                          else and_then assigned
                                                 (\<lambda>st2. Inr (emitWildcard (checkUnset st2 pv current d)
                                                               pv ''set'' d current Undefined)))
                                    else if isObject d
                                    then and_then assigned (\<lambda>st2. Inr (checkSet st2 pv d current))
                                    else if current \<noteq> d
                                    then and_then assigned
                                           (\<lambda>st2. Inr (emitWildcard st2 pv ''set'' d current Undefined))
                                    else Inr st1))))"

text \<open>\<^verbatim>\<open>get(path = '')\<close>: the walk stops at the first null or undefined node.\<close>

fun descend :: "jsval \<Rightarrow> part list \<Rightarrow> error + jsval" where
  "descend node [] = Inr node"
| "descend node (p # ps) =
     (case getProp node p of
        Inl e \<Rightarrow> Inl e
      | Inr n \<Rightarrow> if n = Null \<or> n = Undefined then Inr n else descend n ps)"

definition get_op :: "observer \<Rightarrow> jsval \<Rightarrow> error + (jsval \<times> observer)" where
  "get_op st path0 =
     (case to_pathv (if path0 = Undefined then Str [] else path0) of
        None \<Rightarrow> Inl TypeError
      | Some pv \<Rightarrow>
          (let (parts, st1) = makePathParts st pv
           in case descend (data st1) parts of
                Inl e \<Rightarrow> Inl e
              | Inr v \<Rightarrow> Inr (v, st1)))"

text \<open>
  \<^verbatim>\<open>clear()\<close>: the data and the path cache are reset; \<^verbatim>\<open>this.off()\<close> drops the
  subscribers of the emitter, which the model does not hold.
\<close>

definition clear :: "observer \<Rightarrow> observer" where
  "clear st = st\<lparr>data := Obj [], pathCache := []\<rparr>"

subsection \<open>Subscribing\<close>

text \<open>\<^verbatim>\<open>name.replace(/:(set|unset|insert|move|remove)$/, '')\<close>\<close>

definition has_suffix :: "string \<Rightarrow> string \<Rightarrow> bool" where
  "has_suffix s suf = (length suf \<le> length s \<and> drop (length s - length suf) s = suf)"

definition strip_kind :: "string \<Rightarrow> string" where
  "strip_kind name =
     (case filter (has_suffix name) ['':set'', '':unset'', '':insert'', '':move'', '':remove''] of
        [] \<Rightarrow> name
      | suf # _ \<Rightarrow> take (length name - length suf) name)"

text \<open>\<^verbatim>\<open>map.set(part, node)\<close> on the children of a node.\<close>

fun kid_set :: "part \<Rightarrow> trie \<Rightarrow> (part \<times> trie) list \<Rightarrow> (part \<times> trie) list" where
  "kid_set p t [] = [(p, t)]"
| "kid_set p t ((p', t') # ks) = (if p' = p then (p, t) # ks else (p', t') # kid_set p t ks)"

text \<open>
  The loop of \<^verbatim>\<open>on\<close> over the segments, last segment first: the node of each
  segment is created if missing and its counter incremented; the node of the first segment
  of the path has its \<^verbatim>\<open>end\<close> incremented.
\<close>

fun trie_add :: "part list \<Rightarrow> trie \<Rightarrow> trie" where
  "trie_add [] node = node"
| "trie_add (p # ps) (Trie c e ks) =
     (let m = (case map_of ks p of Some t \<Rightarrow> t | None \<Rightarrow> Trie 0 0 []);
          m' = Trie (counter m + 1) (if ps = [] then tend m + 1 else tend m) (kids m)
      in Trie c e (kid_set p (trie_add ps m') ks))"

text \<open>
  \<^verbatim>\<open>on(name, callback, scope, once)\<close>: the part that indexes the subscription. The
  handler itself lives in the emitter, which calls it at every \<^verbatim>\<open>emit\<close> of \<open>name\<close>.
\<close>

definition on_op :: "observer \<Rightarrow> string \<Rightarrow> observer" where
  "on_op st name =
     (let (pathParts, st1) = makePathParts st (PStr (strip_kind name))
      in st1\<lparr>eventsCache := trie_add (rev pathParts) (eventsCache st1)\<rparr>)"

text \<open>The calls of \<^verbatim>\<open>emit\<close> with a given name: what a subscriber of that name receives.\<close>

fun emit_name :: "emitted \<Rightarrow> string" where
  "emit_name (Emit name parts v old to) = name"

definition received :: "string \<Rightarrow> emitted list \<Rightarrow> emitted list" where
  "received name es = filter (\<lambda>e. emit_name e = name) es"

section \<open>Reading the trace\<close>

text \<open>The calls of \<^verbatim>\<open>emit\<close> made by a call that returned (none is kept of one that threw).\<close>

fun emitted_by :: "error + observer \<Rightarrow> emitted list" where
  "emitted_by (Inl e) = []"
| "emitted_by (Inr st) = emits st"

text \<open>\<open>a\<close> is emitted, and \<open>b\<close> is emitted after the first \<open>a\<close>.\<close>

definition emitted_before :: "emitted \<Rightarrow> emitted \<Rightarrow> emitted list \<Rightarrow> bool" where
  "emitted_before a b es = (b \<in> set (drop 1 (dropWhile (\<lambda>e. e \<noteq> a) es)))"

section \<open>Notions for the statements\<close>

text \<open>An integer path: the one kind of path that \<^verbatim>\<open>_makePathParts\<close> never finds in the cache.\<close>

fun is_PInt :: "pathv \<Rightarrow> bool" where
  "is_PInt (PInt i) = True"
| "is_PInt p = False"

text \<open>The calls of \<^verbatim>\<open>emit\<close> that one \<^verbatim>\<open>_emitWildcard\<close> makes, for the segments \<open>ps\<close>.\<close>

definition event_calls :: "trie \<Rightarrow> part list \<Rightarrow> string \<Rightarrow> jsval \<Rightarrow> jsval \<Rightarrow> jsval \<Rightarrow> emitted list" where
  "event_calls t ps type v old to =
     emitWildcardDeeper t (PStr []) ps 1 type v old to @ [Emit type ps v old to]"

text \<open>
  \<open>st'\<close> extends \<open>st\<close>: the same data and events cache, every path cache entry kept, and
  the trace only longer. Emitting events with a path that is not an integer does this.
\<close>

definition extends :: "observer \<Rightarrow> observer \<Rightarrow> bool" where
  "extends st st' =
     (data st' = data st \<and> eventsCache st' = eventsCache st
      \<and> (\<forall>k v. map_of (pathCache st) k = Some v \<longrightarrow> map_of (pathCache st') k = Some v)
      \<and> (\<exists>es. emits st' = emits st @ es))"

text \<open>The observer after the loop of \<^verbatim>\<open>_checkSet\<close> over the keys of the new value.\<close>

fun checkSet_below :: "observer \<Rightarrow> pathv \<Rightarrow> jsval \<Rightarrow> jsval \<Rightarrow> observer" where
  "checkSet_below st path (Obj kvs) old = checkSet_keys st path kvs old"
| "checkSet_below st path (Arr xs) old = checkSet_items st path 0 xs old"
| "checkSet_below st path d old = st"

text \<open>A call of a public method, with its arguments.\<close>

datatype call =
    Get jsval
  | Set jsval jsval
  | Patch jsval jsval
  | Unset jsval
  | Insert jsval jsval int
  | Move jsval int int
  | Remove jsval int
  | On string

text \<open>The observer after the call (the value returned by \<^verbatim>\<open>get\<close> is dropped).\<close>

fun call_op :: "observer \<Rightarrow> call \<Rightarrow> error + observer" where
  "call_op st (Get p) = map_sum id snd (get_op st p)"
| "call_op st (Set p d) = set_op st p d"
| "call_op st (Patch p d) = patch st p d"
| "call_op st (Unset p) = unset st p"
| "call_op st (Insert p d i) = insert_op st p d i"
| "call_op st (Move p i j) = move st p i j"
| "call_op st (Remove p i) = remove_op st p i"
| "call_op st (On name) = Inr (on_op st name)"

text \<open>A sequence of calls, one after the other; none of them is \<^verbatim>\<open>clear\<close>.\<close>

fun run_calls :: "observer \<Rightarrow> call list \<Rightarrow> error + observer" where
  "run_calls st [] = Inr st"
| "run_calls st (c # cs) = and_then (call_op st c) (\<lambda>st'. run_calls st' cs)"

text \<open>
  The calls that hand a number to \<^verbatim>\<open>_makePathParts\<close> as the path: \<^verbatim>\<open>get\<close>,
  \<^verbatim>\<open>set\<close>, \<^verbatim>\<open>patch\<close> and \<^verbatim>\<open>unset\<close> with a number as the path argument
  (\<^verbatim>\<open>insert\<close>, \<^verbatim>\<open>move\<close> and \<^verbatim>\<open>remove\<close> turn it into a string first).
\<close>

fun isNum :: "jsval \<Rightarrow> bool" where
  "isNum (Num q) = True"
| "isNum v = False"

fun number_path :: "call \<Rightarrow> bool" where
  "number_path (Get p) = isNum p"
| "number_path (Set p d) = isNum p"
| "number_path (Patch p d) = isNum p"
| "number_path (Unset p) = isNum p"
| "number_path c = False"

text \<open>Every entry of the path cache \<open>c\<close> is still in \<open>c'\<close>.\<close>

definition kept :: "(pathv \<times> part list) list \<Rightarrow> (pathv \<times> part list) list \<Rightarrow> bool" where
  "kept c c' = (\<forall>k v. map_of c k = Some v \<longrightarrow> map_of c' k = Some v)"

section \<open>Array insert and move\<close>

text \<open>
  C3 (as stated): on the root array \<open>['a','b','c']\<close>, \<^verbatim>\<open>insert('', 'x', 1)\<close> emits the
  move of \<open>'b'\<close> (1 to 2) before the move of \<open>'c'\<close> (2 to 3). It does not: the loop
  counts down from the end of the array, so the move of \<open>'b'\<close> is not followed by the
  move of \<open>'c'\<close>.
\<close>

theorem insert_moves_order_counterexample:
  "\<not> emitted_before
       (Emit ''move'' [] (Str ''b'') (Num 1) (Num 2))
       (Emit ''move'' [] (Str ''c'') (Num 2) (Num 3))
       (emitted_by (insert_op (Observer (Arr [Str ''a'', Str ''b'', Str ''c''])) (Str []) (Str ''x'') 1))"
  by code_simp

text \<open>
  C3 (amended): on the root array \<open>['a','b','c']\<close>, \<^verbatim>\<open>insert('', 'x', 1)\<close> leaves the
  data as \<open>['a','x','b','c']\<close> and emits, in this order, the move of \<open>'c'\<close> from 2 to
  3, the move of \<open>'b'\<close> from 1 to 2, the insert of \<open>'x'\<close> at index 1, and the set of
  \<open>'x'\<close> at the path \<open>[1]\<close>.
\<close>

theorem insert_middle_example:
  "insert_op (Observer (Arr [Str ''a'', Str ''b'', Str ''c''])) (Str []) (Str ''x'') 1 =
     Inr \<lparr>data = Arr [Str ''a'', Str ''x'', Str ''b'', Str ''c''],
          pathCache = [(PStr ''1'', [PIdx 1]), (PStr [], [])],
          eventsCache = Trie 0 0 [],
          emits = [Emit ''move'' [] (Str ''c'') (Num 2) (Num 3),
                   Emit ''move'' [] (Str ''b'') (Num 1) (Num 2),
                   Emit ''insert'' [] (Str ''x'') (Num 1) Undefined,
                   Emit ''set'' [PIdx 1] (Str ''x'') Undefined Undefined]\<rparr>"
  by code_simp

text \<open>
  C9: on the root array \<open>['a','b','c','d']\<close>, \<^verbatim>\<open>move('', 0, 2)\<close> gives
  \<open>['b','c','a','d']\<close>, and \<^verbatim>\<open>move('', 2, 0)\<close> after it restores
  \<open>['a','b','c','d']\<close>.
\<close>

theorem move_there_and_back:
  "map_sum id data (move (Observer (Arr [Str ''a'', Str ''b'', Str ''c'', Str ''d''])) (Str []) 0 2)
     = Inr (Arr [Str ''b'', Str ''c'', Str ''a'', Str ''d''])
   \<and> map_sum id data
        (and_then (move (Observer (Arr [Str ''a'', Str ''b'', Str ''c'', Str ''d''])) (Str []) 0 2)
           (\<lambda>st. move st (Str []) 2 0))
     = Inr (Arr [Str ''a'', Str ''b'', Str ''c'', Str ''d''])"
  by code_simp


section \<open>Wildcard subscriptions\<close>

text \<open>
  C4: on the data \<open>{earth:{population:7.594}, mars:{population:0}}\<close>, after subscribing to
  \<open>*.population:set\<close>, the call \<^verbatim>\<open>set('earth.population', 7.595)\<close> makes exactly one call
  of \<^verbatim>\<open>emit\<close> with that name, with the arguments \<open>['earth','population']\<close>, 7.595 and
  7.594; after the call \<^verbatim>\<open>set('mars.name', 'Mars')\<close> that follows, this is still the only
  one (the second call emits only the plain \<open>set\<close>).
\<close>

theorem wildcard_population_example:
  "received ''*.population:set''
     (emitted_by
        (set_op
           (on_op (Observer (Obj [(''earth'', Obj [(''population'', Num 7.594)]),
                                  (''mars'', Obj [(''population'', Num 0)])]))
              ''*.population:set'')
           (Str ''earth.population'') (Num 7.595)))
     = [Emit ''*.population:set'' [PKey ''earth'', PKey ''population''] (Num 7.595) (Num 7.594) Undefined]
   \<and> received ''*.population:set''
       (emitted_by
          (and_then
             (set_op
                (on_op (Observer (Obj [(''earth'', Obj [(''population'', Num 7.594)]),
                                       (''mars'', Obj [(''population'', Num 0)])]))
                   ''*.population:set'')
                (Str ''earth.population'') (Num 7.595))
             (\<lambda>st. set_op st (Str ''mars.name'') (Str ''Mars''))))
     = [Emit ''*.population:set'' [PKey ''earth'', PKey ''population''] (Num 7.595) (Num 7.594) Undefined]
   \<and> emitted_by
       (and_then
          (set_op
             (on_op (Observer (Obj [(''earth'', Obj [(''population'', Num 7.594)]),
                                    (''mars'', Obj [(''population'', Num 0)])]))
                ''*.population:set'')
             (Str ''earth.population'') (Num 7.595))
          (\<lambda>st. set_op st (Str ''mars.name'') (Str ''Mars'')))
     = [Emit ''*.population:set'' [PKey ''earth'', PKey ''population''] (Num 7.595) (Num 7.594) Undefined,
        Emit ''set'' [PKey ''earth'', PKey ''population''] (Num 7.595) (Num 7.594) Undefined,
        Emit ''set'' [PKey ''mars'', PKey ''name''] (Str ''Mars'') Undefined Undefined]"
  by code_simp

section \<open>unset with the empty path\<close>

text \<open>
  C1 fails on the code: \<^verbatim>\<open>unset('')\<close> and \<^verbatim>\<open>unset()\<close> on the data \<open>{a:1, b:2}\<close>
  return with the data unchanged and nothing emitted; only the path cache has a new entry.
\<close>

theorem unset_empty_path_keeps_root:
  "unset (Observer (Obj [(''a'', Num 1), (''b'', Num 2)])) (Str [])
     = Inr \<lparr>data = Obj [(''a'', Num 1), (''b'', Num 2)], pathCache = [(PStr [], [])],
            eventsCache = Trie 0 0 [], emits = []\<rparr>
   \<and> unset (Observer (Obj [(''a'', Num 1), (''b'', Num 2)])) Undefined
     = Inr \<lparr>data = Obj [(''a'', Num 1), (''b'', Num 2)], pathCache = [(PStr [], [])],
            eventsCache = Trie 0 0 [], emits = []\<rparr>"
  by code_simp

section \<open>set: replacing an object\<close>

text \<open>Writing at the end of a walked path is writing into the node the walk reached.\<close>

lemma put_at_snoc:
  "walk t ps = Inr (Some node) \<Longrightarrow> put_at (ps @ [k]) new t = put_at ps (put_at [k] new node) t"
proof (induction ps arbitrary: t)
  case Nil
  then show ?case by simp
next
  case (Cons p ps)
  from Cons.prems obtain n where n: "getProp t p = Inr n" "n \<noteq> Undefined" "walk n ps = Inr (Some node)"
    by (auto split: sum.splits if_splits)
  from n(1) have tn: "t \<noteq> Null" "t \<noteq> Undefined" "ownProp t p = n"
    by (auto simp: getProp_def split: if_splits)
  show ?case
  proof (cases t)
    case (Obj kvs)
    with tn n show ?thesis using Cons.IH[OF n(3)] by (auto split: option.splits)
  next
    case (Arr xs)
    with tn n show ?thesis using Cons.IH[OF n(3)]
      by (auto simp: read_def split: option.splits if_splits)
  qed (use tn in auto)
qed

lemma assign_existing:
  "isObject node \<Longrightarrow> ownProp node k = Obj old \<Longrightarrow> assign node k new = Some (put_at [k] new node)"
  by (cases node) (auto simp: obj_set_def read_def split: option.splits if_splits)

lemma assign_existing_length:
  "ownProp (Arr xs) k = Obj old \<Longrightarrow> assign (Arr xs) k new = Some (Arr xs') \<Longrightarrow> length xs' = length xs"
  by (auto simp: read_def split: option.splits if_splits)

lemma set_inserts_done: "set_inserts st path xs (int (length xs)) = st"
  by (simp add: set_inserts.simps)


text \<open>
  Replacing \<open>{a:1, b:2}\<close> by \<open>{a:1, c:3}\<close> makes two calls of \<^verbatim>\<open>_emitWildcard\<close>, whatever
  the path. Where the value that \<^verbatim>\<open>set\<close> finds at the path is \<open>{a:1, b:2}\<close> (the root
  itself for the empty path, or the property that its walk reaches), the call writes the new
  value there and then calls \<^verbatim>\<open>_emitWildcard\<close> exactly twice: for \<open>unset\<close> with the old
  value 2, then for \<open>set\<close> with the new value 3 and the old value undefined. The paths of
  the two calls are the strings that the code forms, \<^verbatim>\<open>path + (path ? '.' : '') + key\<close>
  for the keys \<open>b\<close> and \<open>c\<close>; for a path that is a non-empty string these are \<open>path.b\<close>
  and \<open>path.c\<close>.
\<close>

theorem set_replaces_object_two_calls:
  assumes pv: "to_pathv path = Some pv"
    and mk: "makePathParts st pv = (parts, st1)"
    and wk: "walk (data st1) (butlast parts) = Inr (Some node)"
    and ob: "isObject node"
    and old: "(if path = Str [] then data st1 else ownProp node (last_key parts))
                = Obj [(''a'', Num 1), (''b'', Num 2)]"
  shows "set_op st path (Obj [(''a'', Num 1), (''c'', Num 3)]) =
           Inr (emitWildcard
                  (emitWildcard
                     (st1\<lparr>data := put_at (if path = Str [] then [] else butlast parts @ [last_key parts])
                                      (Obj [(''a'', Num 1), (''c'', Num 3)]) (data st1)\<rparr>)
                     (child_path pv ''b'') ''unset'' (Num 2) Undefined Undefined)
                  (child_path pv ''c'') ''set'' (Num 3) Undefined Undefined)"
proof (cases "path = Str []")
  case True
  with pv mk wk ob old show ?thesis
    by (simp add: set_op_def shift_args_def checkUnset_emit_def checkSet_emit_def other_at_def)
next
  case False
  with old have o: "ownProp node (last_key parts) = Obj [(''a'', Num 1), (''b'', Num 2)]" by simp
  have as: "assign node (last_key parts) (Obj [(''a'', Num 1), (''c'', Num 3)])
              = Some (put_at [last_key parts] (Obj [(''a'', Num 1), (''c'', Num 3)]) node)"
    using assign_existing[OF ob o] .
  have pa: "put_at (butlast parts @ [last_key parts]) (Obj [(''a'', Num 1), (''c'', Num 3)]) (data st1)
             = put_at (butlast parts) (put_at [last_key parts] (Obj [(''a'', Num 1), (''c'', Num 3)]) node) (data st1)"
    using put_at_snoc[OF wk] .
  show ?thesis
  proof (cases node)
    case (Obj kvs)
    with False pv mk wk o as pa show ?thesis
      by (simp add: set_op_def shift_args_def checkUnset_emit_def checkSet_emit_def other_at_def
           del: put_at.simps assign.simps)
  next
    case (Arr xs)
    from as Arr obtain xs' where xs': "put_at [last_key parts] (Obj [(''a'', Num 1), (''c'', Num 3)]) node = Arr xs'"
      by (auto split: option.splits if_splits)
    with as Arr o have len: "length xs' = length xs"
      using assign_existing_length by metis
    from Arr False pv mk wk o as pa xs' len show ?thesis
      by (simp add: set_op_def shift_args_def checkUnset_emit_def checkSet_emit_def other_at_def set_inserts_done[of _ _ xs', unfolded len]
           del: put_at.simps assign.simps)
  qed (use ob in auto)
qed


theorem set_replaces_object_two_calls_example:
  "ownProp (Obj [(''p'', Obj [(''a'', Num 1), (''b'', Num 2)])]) (PKey ''p'')
     = Obj [(''a'', Num 1), (''b'', Num 2)]
   \<and> set_op (Observer (Obj [(''p'', Obj [(''a'', Num 1), (''b'', Num 2)])])) (Str ''p'')
         (Obj [(''a'', Num 1), (''c'', Num 3)])
     = Inr \<lparr>data = Obj [(''p'', Obj [(''a'', Num 1), (''c'', Num 3)])],
            pathCache = [(PStr ''p.c'', [PKey ''p'', PKey ''c'']),
                         (PStr ''p.b'', [PKey ''p'', PKey ''b'']),
                         (PStr ''p'', [PKey ''p''])],
            eventsCache = Trie 0 0 [],
            emits = [Emit ''unset'' [PKey ''p'', PKey ''b''] (Num 2) Undefined Undefined,
                     Emit ''set'' [PKey ''p'', PKey ''c''] (Num 3) Undefined Undefined]\<rparr>"
proof -
  let ?root = "Obj [(''p'', Obj [(''a'', Num 1), (''b'', Num 2)])]"
  let ?st1 = "\<lparr>data = ?root, pathCache = [(PStr ''p'', [PKey ''p''])],
               eventsCache = Trie 0 0 [], emits = []\<rparr>"
  have h1: "to_pathv (Str ''p'') = Some (PStr ''p'')"
    by simp
  have h2: "makePathParts (Observer ?root) (PStr ''p'') = ([PKey ''p''], ?st1)"
    by code_simp
  have h3: "walk (data ?st1) (butlast [PKey ''p'']) = Inr (Some ?root)"
    by simp
  have h4: "isObject ?root"
    by simp
  have h5: "(if Str ''p'' = Str [] then data ?st1 else ownProp ?root (last_key [PKey ''p'']))
              = Obj [(''a'', Num 1), (''b'', Num 2)]"
    by code_simp
  have own: "ownProp ?root (PKey ''p'') = Obj [(''a'', Num 1), (''b'', Num 2)]"
    by code_simp
  have ev: "emitWildcard
              (emitWildcard
                 (?st1\<lparr>data := put_at (if Str ''p'' = Str [] then [] else butlast [PKey ''p''] @ [last_key [PKey ''p'']])
                                   (Obj [(''a'', Num 1), (''c'', Num 3)]) (data ?st1)\<rparr>)
                 (child_path (PStr ''p'') ''b'') ''unset'' (Num 2) Undefined Undefined)
              (child_path (PStr ''p'') ''c'') ''set'' (Num 3) Undefined Undefined
            = \<lparr>data = Obj [(''p'', Obj [(''a'', Num 1), (''c'', Num 3)])],
               pathCache = [(PStr ''p.c'', [PKey ''p'', PKey ''c'']),
                            (PStr ''p.b'', [PKey ''p'', PKey ''b'']),
                            (PStr ''p'', [PKey ''p''])],
               eventsCache = Trie 0 0 [],
               emits = [Emit ''unset'' [PKey ''p'', PKey ''b''] (Num 2) Undefined Undefined,
                        Emit ''set'' [PKey ''p'', PKey ''c''] (Num 3) Undefined Undefined]\<rparr>"
    by code_simp
  show ?thesis
    using set_replaces_object_two_calls [OF h1 h2 h3 h4 h5] own ev by simp
qed

text \<open>
  C5 fails on the code at the integer path 0. On the root array \<open>[{a:1, b:2}]\<close>,
  \<^verbatim>\<open>set(0, {a:1, c:3})\<close> writes the new value and emits two events, but both carry the
  path \<open>[0]\<close>, the replaced element itself, where the claim has them at \<open>0.b\<close> and
  \<open>0.c\<close> and nothing for the element: the number 0 is falsy, so the paths of the keys are
  formed without the dot, as \<open>'0b'\<close> and \<open>'0c'\<close>, and under the root array
  \<^verbatim>\<open>parseInt\<close> reads both as 0. With the same path as the string \<open>'0'\<close> the events are
  at \<open>[0, 'b']\<close> and \<open>[0, 'c']\<close>.
\<close>

theorem set_at_integer_zero_emits_for_element:
  "map_sum id data
     (set_op (Observer (Arr [Obj [(''a'', Num 1), (''b'', Num 2)]])) (Num 0)
        (Obj [(''a'', Num 1), (''c'', Num 3)]))
     = Inr (Arr [Obj [(''a'', Num 1), (''c'', Num 3)]])
   \<and> emitted_by
       (set_op (Observer (Arr [Obj [(''a'', Num 1), (''b'', Num 2)]])) (Num 0)
          (Obj [(''a'', Num 1), (''c'', Num 3)]))
     = [Emit ''unset'' [PIdx 0] (Num 2) Undefined Undefined,
        Emit ''set'' [PIdx 0] (Num 3) Undefined Undefined]
   \<and> emitted_by
       (set_op (Observer (Arr [Obj [(''a'', Num 1), (''b'', Num 2)]])) (Str ''0'')
          (Obj [(''a'', Num 1), (''c'', Num 3)]))
     = [Emit ''unset'' [PIdx 0, PKey ''b''] (Num 2) Undefined Undefined,
        Emit ''set'' [PIdx 0, PKey ''c''] (Num 3) Undefined Undefined]"
  by code_simp

section \<open>set and patch without data\<close>

text \<open>
  C10: for every path argument \<open>p\<close> that is not an object or array (a string or an integer
  in particular), \<^verbatim>\<open>set(p, undefined)\<close> is \<^verbatim>\<open>set('', p)\<close>: the path becomes the data,
  and since it is not an object the call returns at once, with the observer unchanged (no
  write, no event, not even a path cache entry). \<^verbatim>\<open>patch\<close> shifts its arguments the
  same way.
\<close>

theorem set_undefined_shifts:
  assumes "\<not> isObject p"
  shows "set_op st p Undefined = Inr st \<and> patch st p Undefined = Inr st
         \<and> set_op st p Undefined = set_op st (Str []) p
         \<and> patch st p Undefined = patch st (Str []) p"
  using assms by (simp add: set_op_def patch_def shift_args_def)


theorem set_undefined_shifts_witness:
  "\<not> isObject (Str ''a'')
   \<and> set_op (Observer (Obj [(''a'', Num 1)])) (Str ''a'') Undefined = Inr (Observer (Obj [(''a'', Num 1)]))
   \<and> patch (Observer (Obj [(''a'', Num 1)])) (Num 0) Undefined = Inr (Observer (Obj [(''a'', Num 1)]))"
  using set_undefined_shifts [of "Str ''a''" "Observer (Obj [(''a'', Num 1)])"]
    set_undefined_shifts [of "Num 0" "Observer (Obj [(''a'', Num 1)])"]
  by simp


section \<open>What emitting events leaves unchanged\<close>

lemma extends_refl: "extends st st"
  by (simp add: extends_def)

lemma extends_trans: "extends a b \<Longrightarrow> extends b c \<Longrightarrow> extends a c"
  by (auto simp: extends_def)

lemma makePathParts_hit:
  "map_of (pathCache st) p = Some ps \<Longrightarrow> makePathParts st p = (ps, st)"
  by (simp add: makePathParts_def)

lemma makePathParts_frame:
  "makePathParts st p = (ps, st') \<Longrightarrow>
     data st' = data st \<and> eventsCache st' = eventsCache st \<and> emits st' = emits st"
  by (auto simp: makePathParts_def Let_def split: option.splits if_splits)

lemma makePathParts_cached:
  "\<not> is_PInt p \<Longrightarrow> makePathParts st p = (ps, st') \<Longrightarrow> map_of (pathCache st') p = Some ps"
  by (cases p) (auto simp: makePathParts_def Let_def split: option.splits if_splits)

lemma makePathParts_mono:
  "\<not> is_PInt p \<Longrightarrow> makePathParts st p = (ps, st') \<Longrightarrow>
     map_of (pathCache st) k = Some v \<Longrightarrow> map_of (pathCache st') k = Some v"
  by (cases p) (auto simp: makePathParts_def Let_def split: option.splits if_splits)

lemma makePathParts_extends:
  assumes "\<not> is_PInt p" and "makePathParts st p = (ps, st')"
  shows "extends st st'"
  using makePathParts_frame[OF assms(2)] makePathParts_mono[OF assms]
  by (simp add: extends_def)

lemma emitWildcard_emits:
  "emits (emitWildcard st p type v old to) =
     emits st @ event_calls (eventsCache st) (fst (makePathParts st p)) type v old to"
proof -
  obtain ps st1 where m: "makePathParts st p = (ps, st1)"
    by (cases "makePathParts st p")
  from makePathParts_frame[OF m] m show ?thesis
    by (simp add: emitWildcard_def event_calls_def)
qed

lemma emitWildcard_extends:
  assumes "\<not> is_PInt p"
  shows "extends st (emitWildcard st p type v old to)"
proof -
  obtain ps st1 where m: "makePathParts st p = (ps, st1)"
    by (cases "makePathParts st p")
  from makePathParts_extends[OF assms m] m show ?thesis
    by (auto simp: emitWildcard_def extends_def)
qed


lemma child_path_no_int [simp]: "\<not> is_PInt (child_path p k)"
  by (simp add: child_path_def)

lemma checkUnset_emit_extends:
  "\<not> is_PInt p \<Longrightarrow> extends st (checkUnset_emit st p old d)"
  by (simp add: checkUnset_emit_def extends_refl emitWildcard_extends)

lemma checkSet_emit_extends:
  "\<not> is_PInt p \<Longrightarrow> extends st (checkSet_emit st p d old)"
  by (simp add: checkSet_emit_def extends_refl emitWildcard_extends)

lemma checkUnset_extends:
  "\<not> is_PInt p \<Longrightarrow> extends st (checkUnset st p old d)"
  "\<not> is_PInt p \<Longrightarrow> extends st (checkUnset_keys st p kvs d)"
  "\<not> is_PInt p \<Longrightarrow> extends st (checkUnset_items st p i xs d)"
proof (induction st p old d and st p kvs d and st p i xs d
       rule: checkUnset_checkUnset_keys_checkUnset_items.induct)
  case (1 st path kvs d)
  then have "extends st (checkUnset_keys st path kvs d)" by simp
  from extends_trans[OF this checkUnset_emit_extends[OF "1.prems"]] show ?case by simp
next
  case (2 st path xs d)
  then have "extends st (checkUnset_items st path 0 xs d)" by simp
  from extends_trans[OF this checkUnset_emit_extends[OF "2.prems"]] show ?case by simp
next
  case (5 st path k v kvs d)
  have a: "extends st (checkUnset st (child_path path k) v (other_at d k))"
    using "5.IH"(1) by simp
  have b: "extends (checkUnset st (child_path path k) v (other_at d k))
             (checkUnset_keys (checkUnset st (child_path path k) v (other_at d k)) path kvs d)"
    using "5.IH"(2) "5.prems" by simp
  from extends_trans[OF a b] show ?case by simp
next
  case (7 st path i x xs d)
  show ?case
  proof (cases "x = Hole")
    case True
    with "7.IH"(2) "7.prems" show ?thesis by simp
  next
    case False
    have a: "extends st (checkUnset st (child_path path (show_nat i)) x (other_at d (show_nat i)))"
      using "7.IH"(1) False by simp
    have b: "extends (checkUnset st (child_path path (show_nat i)) x (other_at d (show_nat i)))
               (checkUnset_items (checkUnset st (child_path path (show_nat i)) x (other_at d (show_nat i)))
                  path (Suc i) xs d)"
      using "7.IH"(2) "7.prems" False by simp
    from extends_trans[OF a b] False show ?thesis by simp
  qed
qed (simp_all add: checkUnset_emit_extends extends_refl)

lemma checkSet_extends:
  "\<not> is_PInt p \<Longrightarrow> extends st (checkSet st p d old)"
  "\<not> is_PInt p \<Longrightarrow> extends st (checkSet_keys st p kvs old)"
  "\<not> is_PInt p \<Longrightarrow> extends st (checkSet_items st p i xs old)"
proof (induction st p d old and st p kvs old and st p i xs old
       rule: checkSet_checkSet_keys_checkSet_items.induct)
  case (1 st path kvs old)
  then have "extends st (checkSet_keys st path kvs old)" by simp
  from extends_trans[OF this checkSet_emit_extends[OF "1.prems"]] show ?case by simp
next
  case (2 st path xs old)
  then have "extends st (checkSet_items st path 0 xs old)" by simp
  from extends_trans[OF this checkSet_emit_extends[OF "2.prems"]] show ?case by simp
next
  case (5 st path k v kvs old)
  have a: "extends st (checkSet st (child_path path k) v (other_at old k))"
    using "5.IH"(1) by simp
  have b: "extends (checkSet st (child_path path k) v (other_at old k))
             (checkSet_keys (checkSet st (child_path path k) v (other_at old k)) path kvs old)"
    using "5.IH"(2) "5.prems" by simp
  from extends_trans[OF a b] show ?case by simp
next
  case (7 st path i x xs old)
  show ?case
  proof (cases "x = Hole")
    case True
    with "7.IH"(2) "7.prems" show ?thesis by simp
  next
    case False
    have a: "extends st (checkSet st (child_path path (show_nat i)) x (other_at old (show_nat i)))"
      using "7.IH"(1) False by simp
    have b: "extends (checkSet st (child_path path (show_nat i)) x (other_at old (show_nat i)))
               (checkSet_items (checkSet st (child_path path (show_nat i)) x (other_at old (show_nat i)))
                  path (Suc i) xs old)"
      using "7.IH"(2) "7.prems" False by simp
    from extends_trans[OF a b] False show ?thesis by simp
  qed
qed (simp_all add: checkSet_emit_extends extends_refl)





section \<open>set below a missing parent\<close>

text \<open>
  C7 fails on the code where an intermediate node is null: on the data \<open>{a: null}\<close>,
  \<^verbatim>\<open>set('a.b.c', 1)\<close> reads a property of null and throws.
\<close>

theorem set_below_null_throws:
  "set_op (Observer (Obj [(''a'', Null)])) (Str ''a.b.c'') (Num 1) = Inl TypeError"
  by code_simp

text \<open>
  Away from null the call is silent. Where the walk of \<^verbatim>\<open>set\<close> meets undefined, or ends on
  a parent that is not an object or array, the call returns: nothing is written and nothing is emitted (only the
  path cache may have a new entry).
\<close>

theorem set_unresolved_returns:
  assumes "d \<noteq> Undefined"
    and "\<not> (path = Str [] \<and> \<not> isObject d)"
    and "to_pathv path = Some pv"
    and "makePathParts st pv = (parts, st1)"
    and "walk (data st1) (butlast parts) = Inr None
         \<or> (\<exists>node. walk (data st1) (butlast parts) = Inr (Some node) \<and> \<not> isObject node)"
  shows "set_op st path d = Inr st1 \<and> data st1 = data st \<and> emits st1 = emits st
         \<and> eventsCache st1 = eventsCache st"
proof -
  have "set_op st path d = Inr st1"
    using assms by (auto simp: set_op_def shift_args_def)
  with makePathParts_frame[OF assms(4)] show ?thesis by simp
qed

theorem set_unresolved_returns_witness:
  "set_op (Observer (Obj [(''a'', Num 1)])) (Str ''x.y'') (Num 1)
     = Inr \<lparr>data = Obj [(''a'', Num 1)], pathCache = [(PStr ''x.y'', [PKey ''x'', PKey ''y''])],
            eventsCache = Trie 0 0 [], emits = []\<rparr>
   \<and> set_op (Observer (Obj [(''a'', Num 1)])) (Str ''a.y'') (Num 1)
     = Inr \<lparr>data = Obj [(''a'', Num 1)], pathCache = [(PStr ''a.y'', [PKey ''a'', PKey ''y''])],
            eventsCache = Trie 0 0 [], emits = []\<rparr>"
proof -
  let ?st = "Observer (Obj [(''a'', Num 1)])"
  let ?sx = "\<lparr>data = Obj [(''a'', Num 1)], pathCache = [(PStr ''x.y'', [PKey ''x'', PKey ''y''])],
              eventsCache = Trie 0 0 [], emits = []\<rparr>"
  let ?sa = "\<lparr>data = Obj [(''a'', Num 1)], pathCache = [(PStr ''a.y'', [PKey ''a'', PKey ''y''])],
              eventsCache = Trie 0 0 [], emits = []\<rparr>"
  have d: "Num 1 \<noteq> Undefined"
    by simp
  have nx: "\<not> (Str ''x.y'' = Str [] \<and> \<not> isObject (Num 1))"
    and na: "\<not> (Str ''a.y'' = Str [] \<and> \<not> isObject (Num 1))"
    by simp_all
  have px: "to_pathv (Str ''x.y'') = Some (PStr ''x.y'')"
    and pa: "to_pathv (Str ''a.y'') = Some (PStr ''a.y'')"
    by simp_all
  have mx: "makePathParts ?st (PStr ''x.y'') = ([PKey ''x'', PKey ''y''], ?sx)"
    by code_simp
  have ma: "makePathParts ?st (PStr ''a.y'') = ([PKey ''a'', PKey ''y''], ?sa)"
    by code_simp
  have wx: "walk (data ?sx) (butlast [PKey ''x'', PKey ''y'']) = Inr None
            \<or> (\<exists>node. walk (data ?sx) (butlast [PKey ''x'', PKey ''y'']) = Inr (Some node) \<and> \<not> isObject node)"
    by (simp add: getProp_def)
  have wa: "walk (data ?sa) (butlast [PKey ''a'', PKey ''y'']) = Inr None
            \<or> (\<exists>node. walk (data ?sa) (butlast [PKey ''a'', PKey ''y'']) = Inr (Some node) \<and> \<not> isObject node)"
    by (simp add: getProp_def)
  show ?thesis
    using set_unresolved_returns [OF d nx px mx wx] set_unresolved_returns [OF d na pa ma wa]
    by simp
qed

section \<open>Array remove\<close>



lemma locate_facts:
  assumes "locate st path = Inr (pv, parts, node, st1)"
  shows "\<not> is_PInt pv" and "extends st st1" and "emits st1 = emits st"
proof -
  show "\<not> is_PInt pv"
    using assms by (auto simp: locate_def Let_def split: if_splits option.splits prod.splits sum.splits)
  show "extends st st1"
  proof (cases "path \<noteq> Str [] \<and> path \<noteq> Null")
    case False
    with assms show ?thesis by (auto simp: locate_def extends_refl split: if_splits)
  next
    case True
    with assms obtain pv0 ps where
      m: "makePathParts st (PStr (pv_str pv0)) = (ps, st1)"
      by (auto simp: locate_def Let_def split: option.splits prod.splits sum.splits)
    from makePathParts_extends[OF _ m] show ?thesis by simp
  qed
  then show "emits st1 = emits st"
    using assms
    by (auto simp: locate_def Let_def extends_def makePathParts_def
             split: if_splits option.splits prod.splits sum.splits)
qed



lemma extends_makePathParts:
  assumes "extends a b" and "map_of (pathCache a) p = Some ps"
  shows "makePathParts b p = (ps, b)"
  using assms by (simp add: extends_def makePathParts_hit)








section \<open>When the diff engine emits set\<close>

text \<open>
  C6 (as stated): \<^verbatim>\<open>_checkSet\<close> emits a \<open>set\<close> event at the path whenever both values are
  objects. It does not: with the new value \<open>{a:1}\<close> and the old value \<open>{a:2}\<close> at the path
  \<open>p\<close>, the only event is the \<open>set\<close> of \<open>p.a\<close>; none is emitted for \<open>p\<close>.
\<close>

theorem checkSet_object_pair_counterexample:
  "Emit ''set'' [PKey ''p''] (Obj [(''a'', Num 1)]) (Obj [(''a'', Num 2)]) Undefined
     \<notin> set (emits (checkSet (Observer (Obj [(''p'', Obj [(''a'', Num 1)])])) (PStr ''p'')
                      (Obj [(''a'', Num 1)]) (Obj [(''a'', Num 2)])))
   \<and> emits (checkSet (Observer (Obj [(''p'', Obj [(''a'', Num 1)])])) (PStr ''p'')
              (Obj [(''a'', Num 1)]) (Obj [(''a'', Num 2)]))
     = [Emit ''set'' [PKey ''p'', PKey ''a''] (Num 1) (Num 2) Undefined]"
  by code_simp

text \<open>
  C6 (amended): \<^verbatim>\<open>_checkSet(path, newValue, oldValue)\<close> first runs its loop over the keys
  of the new value. Then, when both values are objects or arrays, it emits nothing for the
  path itself; when they are not both objects and are identical, it emits nothing either
  (and the loop did nothing); in every other case it emits one \<open>set\<close> event for the path
  with the new and the old value, after the events of the loop.
\<close>

theorem checkSet_emits_unless:
  "checkSet st path d old =
     (if isObject d \<and> isObject old then checkSet_below st path d old
      else if d = old then st
      else emitWildcard (checkSet_below st path d old) path ''set'' d old Undefined)
   \<and> emits (checkSet st path d old) =
       emits (checkSet_below st path d old)
       @ (if isObject d \<and> isObject old then []
          else if d = old then []
          else event_calls (eventsCache (checkSet_below st path d old))
                 (fst (makePathParts (checkSet_below st path d old) path)) ''set'' d old Undefined)"
proof -
  have a: "checkSet st path d old =
     (if isObject d \<and> isObject old then checkSet_below st path d old
      else if d = old then st
      else emitWildcard (checkSet_below st path d old) path ''set'' d old Undefined)"
    by (cases d) (auto simp: checkSet_emit_def)
  show ?thesis
    unfolding a by (cases d) (auto simp: emitWildcard_emits)
qed



section \<open>The path cache over a sequence of calls\<close>

lemma kept_refl [simp]: "kept c c"
  by (simp add: kept_def)

lemma kept_trans: "kept a b \<Longrightarrow> kept b c \<Longrightarrow> kept a c"
  by (simp add: kept_def)

lemma extends_kept: "extends a b \<Longrightarrow> kept (pathCache a) (pathCache b)"
  by (simp add: extends_def kept_def)

lemma kept_makePathParts:
  "makePathParts st p = (ps, st1) \<Longrightarrow> \<not> is_PInt p \<Longrightarrow> kept c (pathCache st) \<Longrightarrow> kept c (pathCache st1)"
  using makePathParts_extends extends_kept kept_trans by blast

lemma kept_emitWildcard:
  "\<not> is_PInt p \<Longrightarrow> kept c (pathCache st) \<Longrightarrow> kept c (pathCache (emitWildcard st p type v old to))"
  using emitWildcard_extends extends_kept kept_trans by blast

lemma kept_checkSet:
  "\<not> is_PInt p \<Longrightarrow> kept c (pathCache st) \<Longrightarrow> kept c (pathCache (checkSet st p d old))"
  using checkSet_extends(1) extends_kept kept_trans by blast

lemma kept_checkUnset:
  "\<not> is_PInt p \<Longrightarrow> kept c (pathCache st) \<Longrightarrow> kept c (pathCache (checkUnset st p old d))"
  using checkUnset_extends(1) extends_kept kept_trans by blast

lemma insert_moves_extends:
  "\<not> is_PInt p \<Longrightarrow> extends st (insert_moves st p xs i m)"
proof (induction st p xs i m rule: insert_moves.induct)
  case (1 st path xs i m)
  show ?case
  proof (cases "i > m")
    case False
    then show ?thesis by (simp add: insert_moves.simps extends_refl)
  next
    case True
    let ?st' = "emitWildcard st path ''move'' (arr_get xs (i - 1)) (Num (of_int (i - 1 - 1))) (Num (of_int (i - 1)))"
    have s: "insert_moves st path xs i m = insert_moves ?st' path xs (i - 1) m"
      using True by (subst insert_moves.simps) (simp add: Let_def)
    have a: "extends st ?st'"
      using "1.prems" by (rule emitWildcard_extends)
    have b: "extends ?st' (insert_moves ?st' path xs (i - 1) m)"
      using "1.IH"[OF True refl "1.prems"] by simp
    show ?thesis
      unfolding s using a b by (rule extends_trans)
  qed
qed

lemma move_moves_extends:
  "\<not> is_PInt p \<Longrightarrow> extends st (move_moves st p xs i m dir)"
proof (induction st p xs i m dir rule: move_moves.induct)
  case (1 st path xs i m dir)
  show ?case
  proof (cases "i > m")
    case False
    then show ?thesis by (simp add: move_moves.simps extends_refl)
  next
    case True
    let ?st' = "emitWildcard st path ''move'' (arr_get xs (i - 1 + dir)) (Num (of_int (i - 1))) (Num (of_int (i - 1 + dir)))"
    have s: "move_moves st path xs i m dir = move_moves ?st' path xs (i - 1) m dir"
      using True by (subst move_moves.simps) (simp add: Let_def)
    have a: "extends st ?st'"
      using "1.prems" by (rule emitWildcard_extends)
    have b: "extends ?st' (move_moves ?st' path xs (i - 1) m dir)"
      using "1.IH"[OF True refl "1.prems"] by simp
    show ?thesis
      unfolding s using a b by (rule extends_trans)
  qed
qed

lemma remove_moves_extends:
  "\<not> is_PInt p \<Longrightarrow> extends st (remove_moves st p xs i m)"
proof (induction st p xs i m rule: remove_moves.induct)
  case (1 st path xs i m)
  show ?case
  proof (cases "i > m")
    case False
    then show ?thesis by (simp add: remove_moves.simps extends_refl)
  next
    case True
    let ?st' = "emitWildcard st path ''move'' (arr_get xs (i - 1)) (Num (of_int (i - 1 + 1))) (Num (of_int (i - 1)))"
    have s: "remove_moves st path xs i m = remove_moves ?st' path xs (i - 1) m"
      using True by (subst remove_moves.simps) (simp add: Let_def)
    have a: "extends st ?st'"
      using "1.prems" by (rule emitWildcard_extends)
    have b: "extends ?st' (remove_moves ?st' path xs (i - 1) m)"
      using "1.IH"[OF True refl "1.prems"] by simp
    show ?thesis
      unfolding s using a b by (rule extends_trans)
  qed
qed

lemma set_inserts_extends:
  "\<not> is_PInt p \<Longrightarrow> extends st (set_inserts st p xs i)"
proof (induction st p xs i rule: set_inserts.induct)
  case (1 st path xs i)
  show ?case
  proof (cases "i < int (length xs)")
    case False
    then show ?thesis by (simp add: set_inserts.simps extends_refl)
  next
    case True
    let ?st' = "emitWildcard st path ''insert'' (arr_get xs (i + 1 - 1)) (Num (of_int (i + 1 - 1))) Undefined"
    have s: "set_inserts st path xs i = set_inserts ?st' path xs (i + 1)"
      using True by (subst set_inserts.simps) (simp add: Let_def)
    have a: "extends st ?st'"
      using "1.prems" by (rule emitWildcard_extends)
    have b: "extends ?st' (set_inserts ?st' path xs (i + 1))"
      using "1.IH"[OF True refl "1.prems"] by simp
    show ?thesis
      unfolding s using a b by (rule extends_trans)
  qed
qed

lemma kept_insert_moves:
  "\<not> is_PInt p \<Longrightarrow> kept c (pathCache st) \<Longrightarrow> kept c (pathCache (insert_moves st p xs i m))"
  using insert_moves_extends extends_kept kept_trans by blast

lemma kept_move_moves:
  "\<not> is_PInt p \<Longrightarrow> kept c (pathCache st) \<Longrightarrow> kept c (pathCache (move_moves st p xs i m dir))"
  using move_moves_extends extends_kept kept_trans by blast

lemma kept_remove_moves:
  "\<not> is_PInt p \<Longrightarrow> kept c (pathCache st) \<Longrightarrow> kept c (pathCache (remove_moves st p xs i m))"
  using remove_moves_extends extends_kept kept_trans by blast

lemma kept_set_inserts:
  "\<not> is_PInt p \<Longrightarrow> kept c (pathCache st) \<Longrightarrow> kept c (pathCache (set_inserts st p xs i))"
  using set_inserts_extends extends_kept kept_trans by blast

lemmas kept_intros = kept_emitWildcard kept_checkSet kept_checkUnset kept_insert_moves
  kept_move_moves kept_remove_moves kept_set_inserts

lemma to_pathv_no_int: "to_pathv p = Some pv \<Longrightarrow> \<not> isNum p \<Longrightarrow> \<not> is_PInt pv"
  by (cases p) auto

lemma arrayPath_no_int [simp]: "\<not> is_PInt (arrayPath parts)"
  by (simp add: arrayPath_def)

lemma kept_get:
  assumes "get_op st p = Inr (v, st')" and "\<not> isNum p" and "kept c (pathCache st)"
  shows "kept c (pathCache st')"
  using assms
  by (auto simp: get_op_def Let_def split: option.splits prod.splits sum.splits if_splits
           intro: kept_makePathParts dest!: to_pathv_no_int)

lemma kept_on:
  assumes "kept c (pathCache st)"
  shows "kept c (pathCache (on_op st name))"
  using assms
  by (auto simp: on_op_def Let_def split: prod.splits intro: kept_makePathParts)

lemma kept_locate:
  assumes "locate st path = Inr (pv, parts, node, st1)" and "kept c (pathCache st)"
  shows "kept c (pathCache st1)"
  using locate_facts(2)[OF assms(1)] assms(2) extends_kept kept_trans by blast

lemma kept_insert:
  assumes "insert_op st p d i = Inr st'" and "kept c (pathCache st)"
  shows "kept c (pathCache st')"
proof (cases "locate st p")
  case (Inl e)
  with assms show ?thesis by (simp add: insert_op_def)
next
  case (Inr r)
  then obtain pv parts node st1 where l: "locate st p = Inr (pv, parts, node, st1)"
    by (cases r) auto
  note k1 = kept_locate[OF l assms(2)] and ni = locate_facts(1)[OF l]
  show ?thesis
    using assms(1) l k1 ni
    by (auto simp: insert_op_def Let_def simp del: checkSet.simps checkUnset.simps
             split: option.splits jsval.splits if_splits intro!: kept_intros)
qed

lemma kept_move:
  assumes "move st p i j = Inr st'" and "kept c (pathCache st)"
  shows "kept c (pathCache st')"
proof (cases "locate st p")
  case (Inl e)
  with assms show ?thesis by (simp add: move_def)
next
  case (Inr r)
  then obtain pv parts node st1 where l: "locate st p = Inr (pv, parts, node, st1)"
    by (cases r) auto
  note k1 = kept_locate[OF l assms(2)] and ni = locate_facts(1)[OF l]
  show ?thesis
    using assms(1) l k1 ni
    by (auto simp: move_def Let_def simp del: checkSet.simps checkUnset.simps
             split: option.splits jsval.splits if_splits intro!: kept_intros)
qed

lemma kept_remove:
  assumes "remove_op st p i = Inr st'" and "kept c (pathCache st)"
  shows "kept c (pathCache st')"
proof (cases "locate st p")
  case (Inl e)
  with assms show ?thesis by (simp add: remove_op_def)
next
  case (Inr r)
  then obtain pv parts node st1 where l: "locate st p = Inr (pv, parts, node, st1)"
    by (cases r) auto
  note k1 = kept_locate[OF l assms(2)] and ni = locate_facts(1)[OF l]
  show ?thesis
    using assms(1) l k1 ni
    by (auto simp: remove_op_def Let_def simp del: checkSet.simps checkUnset.simps
             split: option.splits jsval.splits if_splits intro!: kept_intros)
qed


lemma kept_set:
  assumes "set_op st p d = Inr st'" and "\<not> isNum p" and "kept c (pathCache st)"
  shows "kept c (pathCache st')"
proof (cases "shift_args p d")
  case (Pair path dd)
  have np: "\<not> isNum path"
    using Pair assms(2) by (auto simp: shift_args_def split: if_splits)
  show ?thesis
  proof (cases "path = Str [] \<and> \<not> isObject dd")
    case True
    with assms Pair show ?thesis by (simp add: set_op_def)
  next
    case False
    with assms(1) Pair obtain pv where pv: "to_pathv path = Some pv"
      by (auto simp: set_op_def split: option.splits)
    note ni = to_pathv_no_int[OF pv np]
    obtain parts st1 where m: "makePathParts st pv = (parts, st1)"
      by (cases "makePathParts st pv")
    note k1 = kept_makePathParts[OF m ni assms(3)]
    show ?thesis
      using assms(1) Pair False pv m k1 ni
      by (auto simp: set_op_def Let_def simp del: checkSet.simps checkUnset.simps
               split: option.splits sum.splits jsval.splits if_splits
               intro!: kept_intros)
  qed
qed

lemma kept_unset:
  assumes "unset st p = Inr st'" and "\<not> isNum p" and "kept c (pathCache st)"
  shows "kept c (pathCache st')"
proof -
  let ?path = "if p = Undefined then Str [] else p"
  have np: "\<not> isNum ?path" using assms(2) by simp
  from assms(1) obtain pv where pv: "to_pathv ?path = Some pv"
    by (auto simp: unset_def split: option.splits)
  note ni = to_pathv_no_int[OF pv np]
  obtain parts st1 where m: "makePathParts st pv = (parts, st1)"
    by (cases "makePathParts st pv")
  note k1 = kept_makePathParts[OF m ni assms(3)]
  show ?thesis
    using assms(1) pv m k1 ni
    by (auto simp: unset_def Let_def simp del: checkSet.simps checkUnset.simps
             split: option.splits sum.splits jsval.splits if_splits
             intro!: kept_intros)
qed

lemma kept_patchNode_new:
  "patchNode_new st loc p kvs = Inr st' \<Longrightarrow> \<not> is_PInt p \<Longrightarrow> kept c (pathCache st)
     \<Longrightarrow> kept c (pathCache st')"
proof (induction kvs arbitrary: st)
  case Nil
  then show ?case by simp
next
  case (Cons kv kvs)
  obtain k v where kv: "kv = (k, v)" by (cases kv)
  show ?case
  proof (cases "hasOwn (get_at loc (data st)) k")
    case True
    with Cons kv show ?thesis by (simp add: Let_def)
  next
    case False
    with Cons.prems(1) kv obtain node' where
      a: "assign (get_at loc (data st)) (PKey k) v = Some node'"
      by (auto simp: Let_def split: option.splits)
    let ?st1 = "st\<lparr>data := put_at loc node' (data st)\<rparr>"
    let ?st2 = "checkSet ?st1 (child_path p k) v Undefined"
    let ?st3 = "if isArray node'
                then emitWildcard ?st2 p ''insert'' (ownProp node' (PKey k))
                       (case parseInt k of Some i \<Rightarrow> Num (of_int i) | None \<Rightarrow> Undefined) Undefined
                else ?st2"
    have r: "patchNode_new ?st3 loc p kvs = Inr st'"
      using Cons.prems(1) kv False a by (simp add: Let_def)
    have "kept c (pathCache ?st3)"
      using Cons.prems(2,3) by (auto simp del: checkSet.simps checkUnset.simps intro!: kept_intros)
    from Cons.IH[OF r Cons.prems(2) this] show ?thesis .
  qed
qed


lemma kept_patch_step:
  assumes r: "(if isObject current
               then if isObject dk then patchNode st lk pd current dk
                    else let st1 = st\<lparr>data := put_at lk dk (data st)\<rparr>
                         in Inr (emitWildcard (checkUnset st1 pd current dk) pd ''set'' dk current Undefined)
               else let st1 = st\<lparr>data := put_at lk dk (data st)\<rparr>
                    in Inr (checkSet st1 pd dk current)) = Inr b"
    and ih: "\<And>st'. isObject current \<Longrightarrow> isObject dk \<Longrightarrow> patchNode st lk pd current dk = Inr st'
               \<Longrightarrow> kept c (pathCache st')"
    and ni: "\<not> is_PInt pd" and k: "kept c (pathCache st)"
  shows "kept c (pathCache b)"
proof (cases "isObject current \<and> isObject dk")
  case True
  with r ih show ?thesis by simp
next
  case False
  with r ni k show ?thesis
    by (auto simp: Let_def simp del: checkSet.simps checkUnset.simps
             split: if_splits intro!: kept_intros)
qed

lemma kept_patchNode:
  "\<forall>st' c. patchNode st loc p node d = Inr st' \<longrightarrow> \<not> is_PInt p \<longrightarrow> kept c (pathCache st)
       \<longrightarrow> kept c (pathCache st')"
  "\<forall>st' c. patchNode_keys st loc p kvs d = Inr st' \<longrightarrow> \<not> is_PInt p \<longrightarrow> kept c (pathCache st)
       \<longrightarrow> kept c (pathCache st')"
  "\<forall>st' c. patchNode_items st loc p i xs d = Inr st' \<longrightarrow> \<not> is_PInt p \<longrightarrow> kept c (pathCache st)
       \<longrightarrow> kept c (pathCache st')"
proof (induction st loc p node d and st loc p kvs d and st loc p i xs d
       rule: patchNode_patchNode_keys_patchNode_items.induct)
  case (1 st loc path kvs d)
  show ?case
  proof (intro allI impI)
    fix st' c
    assume a: "patchNode st loc path (Obj kvs) d = Inr st'" and ni: "\<not> is_PInt path"
      and k: "kept c (pathCache st)"
    from a obtain st1 where
      b: "patchNode_keys st loc path kvs d = Inr st1" and n: "patchNode_new st1 loc path (entries d) = Inr st'"
      by (auto split: sum.splits)
    from "1.IH" b ni k have "kept c (pathCache st1)" by blast
    from kept_patchNode_new[OF n ni this] show "kept c (pathCache st')" .
  qed
next
  case (2 st loc path xs d)
  show ?case
  proof (intro allI impI)
    fix st' c
    assume a: "patchNode st loc path (Arr xs) d = Inr st'" and ni: "\<not> is_PInt path"
      and k: "kept c (pathCache st)"
    from a obtain st1 where
      b: "patchNode_items st loc path 0 xs d = Inr st1" and n: "patchNode_new st1 loc path (entries d) = Inr st'"
      by (auto split: sum.splits)
    from "2.IH" b ni k have "kept c (pathCache st1)" by blast
    from kept_patchNode_new[OF n ni this] show "kept c (pathCache st')" .
  qed
next
  case (5 st loc path k current kvs d)
  let ?dk = "ownProp d (PKey k)"
  let ?pd = "child_path path k"
  show ?case
  proof (intro allI impI)
    fix st' c
    assume a: "patchNode_keys st loc path ((k, current) # kvs) d = Inr st'" and ni: "\<not> is_PInt path"
      and kc: "kept c (pathCache st)"
    show "kept c (pathCache st')"
    proof (cases "?dk = Undefined")
      case True
      with a have "patchNode_keys st loc path kvs d = Inr st'" by (simp add: Let_def)
      with "5.IH"(1)[OF refl refl True] ni kc show ?thesis by blast
    next
      case False
      let ?r = "if isObject current
                then if isObject ?dk then patchNode st (loc @ [PKey k]) ?pd current ?dk
                     else let st1 = st\<lparr>data := put_at (loc @ [PKey k]) ?dk (data st)\<rparr>
                          in Inr (emitWildcard (checkUnset st1 ?pd current ?dk) ?pd ''set'' ?dk current Undefined)
                else let st1 = st\<lparr>data := put_at (loc @ [PKey k]) ?dk (data st)\<rparr>
                     in Inr (checkSet st1 ?pd ?dk current)"
      from a False obtain b where r: "?r = Inr b" and rest: "patchNode_keys b loc path kvs d = Inr st'"
        by (simp add: Let_def split: sum.splits)
      have "kept c (pathCache b)"
      proof (rule kept_patch_step[OF r _ _ kc])
        fix s
        assume "isObject current" "isObject ?dk" "patchNode st (loc @ [PKey k]) ?pd current ?dk = Inr s"
        with "5.IH"(2)[OF refl refl False] kc show "kept c (pathCache s)" by simp
      qed simp
      with "5.IH"(3)[OF refl refl False r] rest ni show ?thesis by blast
    qed
  qed
next
  case (7 st loc path i current xs d)
  let ?k = "show_nat i"
  let ?dk = "ownProp d (PKey ?k)"
  let ?pd = "child_path path ?k"
  show ?case
  proof (intro allI impI)
    fix st' c
    assume a: "patchNode_items st loc path i (current # xs) d = Inr st'" and ni: "\<not> is_PInt path"
      and kc: "kept c (pathCache st)"
    show "kept c (pathCache st')"
    proof (cases "current = Hole \<or> ?dk = Undefined")
      case True
      with a have "patchNode_items st loc path (Suc i) xs d = Inr st'" by (simp add: Let_def)
      with "7.IH"(1)[OF refl refl refl True] ni kc show ?thesis by blast
    next
      case False
      let ?r = "if isObject current
                then if isObject ?dk then patchNode st (loc @ [PKey ?k]) ?pd current ?dk
                     else let st1 = st\<lparr>data := put_at (loc @ [PKey ?k]) ?dk (data st)\<rparr>
                          in Inr (emitWildcard (checkUnset st1 ?pd current ?dk) ?pd ''set'' ?dk current Undefined)
                else let st1 = st\<lparr>data := put_at (loc @ [PKey ?k]) ?dk (data st)\<rparr>
                     in Inr (checkSet st1 ?pd ?dk current)"
      from a False obtain b where r: "?r = Inr b" and rest: "patchNode_items b loc path (Suc i) xs d = Inr st'"
        by (simp add: Let_def split: sum.splits)
      have "kept c (pathCache b)"
      proof (rule kept_patch_step[OF r _ _ kc])
        fix s
        assume "isObject current" "isObject ?dk" "patchNode st (loc @ [PKey ?k]) ?pd current ?dk = Inr s"
        with "7.IH"(2)[OF refl refl refl False] kc show "kept c (pathCache s)" by simp
      qed simp
      with "7.IH"(3)[OF refl refl refl False r] rest ni show ?thesis by blast
    qed
  qed
qed simp_all


lemma kept_patch:
  assumes "patch st p d = Inr st'" and "\<not> isNum p" and "kept c (pathCache st)"
  shows "kept c (pathCache st')"
proof (cases "shift_args p d")
  case (Pair path dd)
  have np: "\<not> isNum path"
    using Pair assms(2) by (auto simp: shift_args_def split: if_splits)
  show ?thesis
  proof (cases "path = Str [] \<and> \<not> isObject dd")
    case True
    with assms Pair show ?thesis by (simp add: patch_def)
  next
    case False
    with assms(1) Pair obtain pv where pv: "to_pathv path = Some pv"
      by (auto simp: patch_def split: option.splits)
    note ni = to_pathv_no_int[OF pv np]
    obtain parts st1 where m: "makePathParts st pv = (parts, st1)"
      by (cases "makePathParts st pv")
    note k1 = kept_makePathParts[OF m ni assms(3)]
    note pn = kept_patchNode(1)[rule_format, OF _ ni k1]
    show ?thesis
      using assms(1) Pair False pv m k1 ni pn
      by (auto simp: patch_def Let_def simp del: checkSet.simps checkUnset.simps patchNode.simps
               split: option.splits sum.splits if_splits
               intro!: kept_intros)
  qed
qed

lemma kept_call:
  assumes "call_op st call = Inr st'" and "\<not> number_path call" and "kept c (pathCache st)"
  shows "kept c (pathCache st')"
proof (cases call)
  case (Get p)
  with assms(1) obtain v where "get_op st p = Inr (v, st')"
    by (cases "get_op st p") auto
  with Get assms(2,3) show ?thesis using kept_get by simp
qed (use assms kept_set kept_patch kept_unset kept_insert kept_move kept_remove kept_on in auto)

lemma kept_run_calls:
  "run_calls st cs = Inr st' \<Longrightarrow> \<forall>call \<in> set cs. \<not> number_path call \<Longrightarrow> kept c (pathCache st)
     \<Longrightarrow> kept c (pathCache st')"
proof (induction cs arbitrary: st)
  case Nil
  then show ?case by simp
next
  case (Cons call cs)
  from Cons.prems(1) obtain s where a: "call_op st call = Inr s" and b: "run_calls s cs = Inr st'"
    by (cases "call_op st call") auto
  from kept_call[OF a _ Cons.prems(3)] Cons.prems(2) have "kept c (pathCache s)" by simp
  from Cons.IH[OF b _ this] Cons.prems(2) show ?case by simp
qed

text \<open>
  C8 fails on the code for an integer path. On the root array \<open>['a']\<close> the path \<open>0\<close>
  resolves to \<open>[0]\<close>; after \<^verbatim>\<open>set('', {'0': 'x'})\<close> the same path \<open>0\<close> resolves to
  \<open>['0']\<close>: the cache is read with the number and written with its string, so an
  integer path is resolved again at every call. It then replaces the entry of its string:
  the path \<open>'0'\<close>, first resolved to \<open>[0]\<close>, resolves to \<open>['0']\<close> after the same
  \<^verbatim>\<open>set\<close> and a \<^verbatim>\<open>get(0)\<close>.
\<close>

theorem integer_path_resolved_again:
  "fst (makePathParts (Observer (Arr [Str ''a''])) (PInt 0)) = [PIdx 0]
   \<and> map_sum id (\<lambda>st. fst (makePathParts st (PInt 0)))
        (run_calls (snd (makePathParts (Observer (Arr [Str ''a''])) (PInt 0)))
           [Set (Str []) (Obj [(''0'', Str ''x'')])])
     = Inr [PKey ''0'']
   \<and> fst (makePathParts (Observer (Arr [Str ''a''])) (PStr ''0'')) = [PIdx 0]
   \<and> map_sum id (\<lambda>st. fst (makePathParts st (PStr ''0'')))
        (run_calls (snd (makePathParts (Observer (Arr [Str ''a''])) (PStr ''0'')))
           [Set (Str []) (Obj [(''0'', Str ''x'')]), Get (Num 0)])
     = Inr [PKey ''0'']"
  by code_simp


text \<open>
  For a string or null path the cache is stable. For every raw path that is a string or
  null, once \<^verbatim>\<open>_makePathParts\<close> has resolved
  it, every later call with the same raw path returns the same segments and leaves the
  observer as it is, after any sequence of calls of \<^verbatim>\<open>get\<close>, \<^verbatim>\<open>set\<close>,
  \<^verbatim>\<open>patch\<close>, \<^verbatim>\<open>unset\<close>, \<^verbatim>\<open>insert\<close>, \<^verbatim>\<open>move\<close>, \<^verbatim>\<open>remove\<close> and \<^verbatim>\<open>on\<close>
  that returned, whatever they did to the data, as long as none of them is
  \<^verbatim>\<open>clear\<close> and none of \<^verbatim>\<open>get\<close>, \<^verbatim>\<open>set\<close>, \<^verbatim>\<open>patch\<close>, \<^verbatim>\<open>unset\<close> was given
  a number as its path.
\<close>

theorem cached_parts_kept:
  assumes "\<not> is_PInt p"
    and "makePathParts st p = (parts, st1)"
    and "run_calls st1 cs = Inr st2"
    and "\<forall>call \<in> set cs. \<not> number_path call"
  shows "makePathParts st2 p = (parts, st2)"
proof -
  have "map_of (pathCache st1) p = Some parts"
    using makePathParts_cached[OF assms(1,2)] .
  moreover have "kept (pathCache st1) (pathCache st2)"
    using kept_run_calls[OF assms(3,4)] by simp
  ultimately have "map_of (pathCache st2) p = Some parts"
    by (simp add: kept_def)
  then show ?thesis by (rule makePathParts_hit)
qed


theorem cached_parts_kept_witness:
  "map_sum id (\<lambda>st. fst (makePathParts st (PStr ''0'')))
     (run_calls (snd (makePathParts (Observer (Arr [Str ''a''])) (PStr ''0'')))
        [Set (Str []) (Obj [(''0'', Str ''x'')])])
     = Inr [PIdx 0]
   \<and> map_sum id data
       (run_calls (snd (makePathParts (Observer (Arr [Str ''a''])) (PStr ''0'')))
          [Set (Str []) (Obj [(''0'', Str ''x'')])])
     = Inr (Obj [(''0'', Str ''x'')])"
proof -
  let ?st1 = "\<lparr>data = Arr [Str ''a''], pathCache = [(PStr ''0'', [PIdx 0])],
               eventsCache = Trie 0 0 [], emits = []\<rparr>"
  let ?st2 = "\<lparr>data = Obj [(''0'', Str ''x'')], pathCache = [(PStr [], []), (PStr ''0'', [PIdx 0])],
               eventsCache = Trie 0 0 [],
               emits = [Emit ''set'' [PIdx 0] (Str ''x'') (Str ''a'') Undefined]\<rparr>"
  have h1: "\<not> is_PInt (PStr ''0'')"
    by simp
  have h2: "makePathParts (Observer (Arr [Str ''a''])) (PStr ''0'') = ([PIdx 0], ?st1)"
    by code_simp
  have h3: "run_calls ?st1 [Set (Str []) (Obj [(''0'', Str ''x'')])] = Inr ?st2"
    by code_simp
  have h4: "\<forall>call \<in> set [Set (Str []) (Obj [(''0'', Str ''x'')])]. \<not> number_path call"
    by simp
  show ?thesis
    using cached_parts_kept [OF h1 h2 h3 h4] h2 h3 by simp
qed

end
